theory Spec2Isabelle
  imports Main "HOL-Library.Word"
begin

unbundle bit_operations_syntax

section \<open>Machine types and constants of my\_ffs.h\<close>

text \<open>
  The on-media fields are four bytes wide, so \<^verbatim>\<open>unsigned long\<close> is a 32-bit word
  and \<^verbatim>\<open>int\<close> a 32-bit two's complement value. Arithmetic on
  \<^verbatim>\<open>unsigned long\<close> wraps around, as \<open>+\<close> and \<open>-\<close> on \<^typ>\<open>32 word\<close> do.
\<close>

type_synonym byte = "8 word"
type_synonym ushort = "16 word"
type_synonym ulong = "32 word"

abbreviation (input) FFS_MAX_FILENAME_LENGTH :: nat where "FFS_MAX_FILENAME_LENGTH \<equiv> 64"
abbreviation (input) FFS_FILE_SYSTEM_VERSION :: byte where "FFS_FILE_SYSTEM_VERSION \<equiv> 1"
abbreviation (input) FFS_SECTOR_HEADER_KEY :: ulong where "FFS_SECTOR_HEADER_KEY \<equiv> 0x6d666673"

abbreviation (input) FFS_SECTOR_HEADER_INUSE :: byte where "FFS_SECTOR_HEADER_INUSE \<equiv> 0x0f"
abbreviation (input) FFS_SECTOR_HEADER_INUSE_FILENODE :: byte where "FFS_SECTOR_HEADER_INUSE_FILENODE \<equiv> 0xf0"
abbreviation (input) FFS_SECTOR_HEADER_FREE :: byte where "FFS_SECTOR_HEADER_FREE \<equiv> 0xff"
abbreviation (input) FFS_SECTOR_HEADER_FREE_DIRTY :: byte where "FFS_SECTOR_HEADER_FREE_DIRTY \<equiv> 0x00"

abbreviation (input) FFS_MAX_FILE_DESCRIPTORS :: nat where "FFS_MAX_FILE_DESCRIPTORS \<equiv> 2"

abbreviation (input) FFS_RDONLY :: int where "FFS_RDONLY \<equiv> 0x0000"
abbreviation (input) FFS_WRONLY :: int where "FFS_WRONLY \<equiv> 0x0001"
abbreviation (input) FFS_RDWR :: int where "FFS_RDWR \<equiv> 0x0002"
abbreviation (input) FFS_CREATE :: int where "FFS_CREATE \<equiv> 0x0100"

abbreviation (input) CHECK_SECTOR_NOTSEEN :: byte where "CHECK_SECTOR_NOTSEEN \<equiv> 0x00"
abbreviation (input) CHECK_SECTOR_BAD :: byte where "CHECK_SECTOR_BAD \<equiv> 0x01"
abbreviation (input) CHECK_SECTOR_FNODE :: byte where "CHECK_SECTOR_FNODE \<equiv> 0x02"
abbreviation (input) CHECK_SECTOR_FREE :: byte where "CHECK_SECTOR_FREE \<equiv> 0x04"
abbreviation (input) CHECK_SECTOR_INUSE :: byte where "CHECK_SECTOR_INUSE \<equiv> 0x08"

abbreviation (input) FFS_RC_TOO_MANY_OPEN_FILES :: int where "FFS_RC_TOO_MANY_OPEN_FILES \<equiv> - 1"
abbreviation (input) FFS_RC_FILE_DOES_NOT_EXIST :: int where "FFS_RC_FILE_DOES_NOT_EXIST \<equiv> - 2"
abbreviation (input) FFS_RC_INVALID_FILE_DESCRIPTOR :: int where "FFS_RC_INVALID_FILE_DESCRIPTOR \<equiv> - 3"
abbreviation (input) FFS_RC_INVALID_FILE_POSITION :: int where "FFS_RC_INVALID_FILE_POSITION \<equiv> - 4"
abbreviation (input) FFS_RC_INVALID_SECTOR_NUMBER :: int where "FFS_RC_INVALID_SECTOR_NUMBER \<equiv> - 5"
abbreviation (input) FFS_RC_OUT_OF_SPACE :: int where "FFS_RC_OUT_OF_SPACE \<equiv> - 6"
abbreviation (input) FFS_RC_FILE_NOT_FOUND :: int where "FFS_RC_FILE_NOT_FOUND \<equiv> - 7"
abbreviation (input) FFS_RC_NEW_NAME_EXISTS :: int where "FFS_RC_NEW_NAME_EXISTS \<equiv> - 8"

text \<open>The value \<^verbatim>\<open>-1\<close> stored in an \<^verbatim>\<open>unsigned long\<close>: end of chain, no sector.\<close>

abbreviation (input) NO_SECTOR :: ulong where "NO_SECTOR \<equiv> 0xFFFFFFFF"

section \<open>Structures\<close>

record FFS_FLASH_SECTION =
  Device :: byte
  Start :: ulong
  Count :: ulong
  SectorSize :: ulong

record FFS_SECTOR_HEADER =
  Key :: ulong
  Next :: ulong
  EraseCount :: ulong
  Version :: byte
  Status :: byte
  SectorChecksum :: ushort
  SectorLength :: ulong
  DataOffset :: ulong

text \<open>
  \<^verbatim>\<open>Filename\<close> is the array of 65 bytes. With four-byte alignment of
  \<^verbatim>\<open>unsigned long\<close> the compiler puts two padding bytes after it, kept here as
  \<open>Padding\<close> because \<^verbatim>\<open>memcpy\<close> and the sector writes move the whole structure.
\<close>

record FFS_FILE_NODE =
  Permissions :: byte
  Filename :: "byte list"
  Padding :: "byte list"
  FileSize :: ulong
  DataTime :: ulong
  Count :: ulong

record FFS_FILE_DESCRIPTOR =
  InUse :: byte
  Flags :: byte
  DeleteOldFile :: byte
  WriteFnode :: byte
  FnodeSector :: ulong
  OldFnodeSector :: ulong
  Position :: ulong
  Fnode :: FFS_FILE_NODE

text \<open>The sizes and field offsets that \<^verbatim>\<open>sizeof\<close> and the pointer differences give.\<close>

abbreviation (input) SIZEOF_SECTOR_HEADER :: ulong where "SIZEOF_SECTOR_HEADER \<equiv> 24"
abbreviation (input) SIZEOF_FILE_NODE :: ulong where "SIZEOF_FILE_NODE \<equiv> 80"
abbreviation (input) OFFSET_OF_NEXT :: ulong where "OFFSET_OF_NEXT \<equiv> 4"
abbreviation (input) OFFSET_OF_VERSION :: ulong where "OFFSET_OF_VERSION \<equiv> 12"

subsection \<open>Byte images of the structures (little-endian)\<close>

definition le16 :: "ushort \<Rightarrow> byte list" where
  "le16 w = [ucast w, ucast (drop_bit 8 w)]"

definition le32 :: "ulong \<Rightarrow> byte list" where
  "le32 w = [ucast w, ucast (drop_bit 8 w), ucast (drop_bit 16 w), ucast (drop_bit 24 w)]"

definition rd16 :: "byte \<Rightarrow> byte \<Rightarrow> ushort" where
  "rd16 a b = ucast a OR push_bit 8 (ucast b)"

definition rd32 :: "byte \<Rightarrow> byte \<Rightarrow> byte \<Rightarrow> byte \<Rightarrow> ulong" where
  "rd32 a b c d =
     ucast a OR push_bit 8 (ucast b) OR push_bit 16 (ucast c) OR push_bit 24 (ucast d)"

definition header_bytes :: "FFS_SECTOR_HEADER \<Rightarrow> byte list" where
  "header_bytes h =
     le32 (Key h) @ le32 (Next h) @ le32 (EraseCount h) @ [Version h, Status h]
       @ le16 (SectorChecksum h) @ le32 (SectorLength h) @ le32 (DataOffset h)"

text \<open>The header held by a buffer of 24 bytes that a sector read filled.\<close>

definition header_of :: "byte list \<Rightarrow> FFS_SECTOR_HEADER" where
  "header_of bs =
     \<lparr>Key = rd32 (bs ! 0) (bs ! 1) (bs ! 2) (bs ! 3),
      Next = rd32 (bs ! 4) (bs ! 5) (bs ! 6) (bs ! 7),
      EraseCount = rd32 (bs ! 8) (bs ! 9) (bs ! 10) (bs ! 11),
      Version = bs ! 12,
      Status = bs ! 13,
      SectorChecksum = rd16 (bs ! 14) (bs ! 15),
      SectorLength = rd32 (bs ! 16) (bs ! 17) (bs ! 18) (bs ! 19),
      DataOffset = rd32 (bs ! 20) (bs ! 21) (bs ! 22) (bs ! 23)\<rparr>"

definition fnode_bytes :: "FFS_FILE_NODE \<Rightarrow> byte list" where
  "fnode_bytes f =
     Permissions f # Filename f @ Padding f
       @ le32 (FileSize f) @ le32 (DataTime f) @ le32 (Count f)"

text \<open>The file node held by a buffer of 80 bytes that a sector read filled.\<close>

definition fnode_of :: "byte list \<Rightarrow> FFS_FILE_NODE" where
  "fnode_of bs =
     \<lparr>Permissions = bs ! 0,
      Filename = take 65 (drop 1 bs),
      Padding = take 2 (drop 66 bs),
      FileSize = rd32 (bs ! 68) (bs ! 69) (bs ! 70) (bs ! 71),
      DataTime = rd32 (bs ! 72) (bs ! 73) (bs ! 74) (bs ! 75),
      Count = rd32 (bs ! 76) (bs ! 77) (bs ! 78) (bs ! 79)\<rparr>"

subsection \<open>C strings\<close>

text \<open>The characters of a C string held in an array: those before the first NUL.\<close>

definition cstr :: "byte list \<Rightarrow> byte list" where
  "cstr bs = takeWhile (\<lambda>b. b \<noteq> 0) bs"

definition toupper :: "byte \<Rightarrow> byte" where
  "toupper c = (if 0x61 \<le> c \<and> c \<le> 0x7a then c - 0x20 else c)"

definition StringToUpperCase :: "byte list \<Rightarrow> byte list" where
  "StringToUpperCase str = map toupper str"

text \<open>
  \<^verbatim>\<open>strcpy(dst, src)\<close> into an array: the characters, the NUL, and the bytes of the
  array behind them as they were.
\<close>

definition strcpy :: "byte list \<Rightarrow> byte list \<Rightarrow> byte list" where
  "strcpy dst src = src @ [0] @ drop (length src + 1) dst"

section \<open>The state of the engine and of the flash\<close>

text \<open>
  Results outside what the C code defines: an index beyond the descriptor table or the
  sector array, a read of a variable that nothing has written, a string without its NUL,
  a caller's buffer shorter than the transfer. \<open>OutOfFuel\<close> is a loop that has not
  returned within the given number of iterations.
\<close>

datatype fault =
    DescriptorTableOutOfBounds
  | SectorArrayOutOfBounds
  | UninitialisedRead
  | StringOverrun
  | BufferOverrun
  | OutOfFuel

text \<open>
  The purpose a call site gives a sector write; it is recorded in the journal only.
\<close>

datatype purpose = HeaderImage | NextLink | FileData | FnodeImage | StatusMark

datatype flash_op =
    OpErase ulong
  | OpWrite purpose ulong ulong "byte list"

text \<open>
  \<open>media (k, r) i\<close> is byte \<open>i\<close> of sector \<open>r\<close> of the section at index \<open>k\<close> of
  the section table. \<open>journal\<close> lists, oldest first, the erases and writes that the section
  drivers have carried out, each with the global sector number it was issued for.
\<close>

record ffs =
  FlashSectionTable :: "FFS_FLASH_SECTION list"
  media :: "nat \<times> ulong \<Rightarrow> nat \<Rightarrow> byte"
  journal :: "flash_op list"
  initializationComplete :: bool
  FileDescriptors :: "nat \<Rightarrow> FFS_FILE_DESCRIPTOR"
  ErrorSectorCount :: ulong
  TotalSectors :: ulong
  TotalCrossChain :: ulong

section \<open>Flash section registry\<close>

text \<open>
  \<^verbatim>\<open>GetFlashSectionEntry\<close>: the walk over the table, \<open>k\<close> being the index of the
  entry that \<^verbatim>\<open>*Section\<close> points to. The table ends with the entry whose
  \<^verbatim>\<open>Device\<close> is \<open>0xff\<close>; the code steps to the next entry first and then subtracts
  the \<^verbatim>\<open>Count\<close> of that entry.
\<close>

fun GetFlashSectionEntry_loop ::
  "FFS_FLASH_SECTION list \<Rightarrow> nat \<Rightarrow> ulong \<Rightarrow> (nat \<times> ulong) option" where
  "GetFlashSectionEntry_loop [] k Sector = None"
| "GetFlashSectionEntry_loop (s # rest) k Sector =
     (if Device s = 0xff then None
      else if Sector < FFS_FLASH_SECTION.Count s then Some (k, Sector)
      else (case rest of
              [] \<Rightarrow> None
            | s' # _ \<Rightarrow> GetFlashSectionEntry_loop rest (Suc k) (Sector - FFS_FLASH_SECTION.Count s')))"

definition GetFlashSectionEntry :: "ffs \<Rightarrow> ulong \<Rightarrow> (nat \<times> ulong) option" where
  "GetFlashSectionEntry st Sector = GetFlashSectionEntry_loop (FlashSectionTable st) 0 Sector"

definition ValidSector :: "ffs \<Rightarrow> ulong \<Rightarrow> bool" where
  "ValidSector st Sector =
     (case GetFlashSectionEntry st Sector of None \<Rightarrow> False | Some found \<Rightarrow> True)"

subsection \<open>Section drivers\<close>

text \<open>
  Modelled from the spec: the \<^verbatim>\<open>Read\<close>, \<^verbatim>\<open>Write\<close> and \<^verbatim>\<open>Erase\<close> routines that the
  section table points to are not part of the sources. The spec gives their contract:
  a read or write of any offset and length within the sector returns the number of bytes,
  a write can only turn bits from 1 to 0, an erase returns the whole sector to \<open>0xFF\<close>,
  and an error is a negative value. The value of that error is not given; it is
  \<open>SECTION_IO_ERROR\<close> here, returned for a transfer that does not fit the sector.
\<close>

abbreviation (input) SECTION_IO_ERROR :: int where "SECTION_IO_ERROR \<equiv> - 128"

definition section_Read ::
  "FFS_FLASH_SECTION \<Rightarrow> (nat \<Rightarrow> byte) \<Rightarrow> ulong \<Rightarrow> ulong \<Rightarrow> int \<times> byte list option" where
  "section_Read sec content Offset Length =
     (if 0 \<le> sint Length \<and> unat Offset + unat Length \<le> unat (SectorSize sec)
      then (sint Length, Some (map content [unat Offset ..< unat Offset + unat Length]))
      else (SECTION_IO_ERROR, None))"

text \<open>The content of a sector after a write of \<open>Buffer\<close> at \<open>off\<close>, and after an erase.\<close>

definition nor_write :: "(nat \<Rightarrow> byte) \<Rightarrow> nat \<Rightarrow> byte list \<Rightarrow> nat \<Rightarrow> byte" where
  "nor_write content off Buffer i =
     (if off \<le> i \<and> i < off + length Buffer then content i AND Buffer ! (i - off)
      else content i)"

definition erased :: "nat \<Rightarrow> byte" where
  "erased i = 0xFF"

definition section_Write ::
  "FFS_FLASH_SECTION \<Rightarrow> (nat \<Rightarrow> byte) \<Rightarrow> ulong \<Rightarrow> byte list \<Rightarrow> int \<times> (nat \<Rightarrow> byte) option" where
  "section_Write sec content Offset Buffer =
     (if length Buffer < 2 ^ 31 \<and> unat Offset + length Buffer \<le> unat (SectorSize sec)
      then (int (length Buffer), Some (nor_write content (unat Offset) Buffer))
      else (SECTION_IO_ERROR, None))"

definition section_Erase :: "FFS_FLASH_SECTION \<Rightarrow> (nat \<Rightarrow> byte) \<Rightarrow> int \<times> (nat \<Rightarrow> byte) option" where
  "section_Erase sec content = (0, Some erased)"

subsection \<open>Sector input and output\<close>

text \<open>
  \<^verbatim>\<open>ReadSector\<close> returns the driver's return code and, when the driver has filled the
  caller's buffer, the bytes; with \<open>None\<close> the buffer is as it was before the call.
\<close>

definition ReadSector :: "ffs \<Rightarrow> ulong \<Rightarrow> ulong \<Rightarrow> ulong \<Rightarrow> int \<times> byte list option" where
  "ReadSector st Sector Offset Length =
     (case GetFlashSectionEntry st Sector of
        None \<Rightarrow> (FFS_RC_INVALID_SECTOR_NUMBER, None)
      | Some (k, RelSector) \<Rightarrow>
          section_Read (FlashSectionTable st ! k) (media st (k, RelSector)) Offset Length)"

definition WriteSector ::
  "ffs \<Rightarrow> purpose \<Rightarrow> ulong \<Rightarrow> ulong \<Rightarrow> byte list \<Rightarrow> int \<times> ffs" where
  "WriteSector st why Sector Offset Buffer =
     (case GetFlashSectionEntry st Sector of
        None \<Rightarrow> (FFS_RC_INVALID_SECTOR_NUMBER, st)
      | Some (k, RelSector) \<Rightarrow>
          (case section_Write (FlashSectionTable st ! k) (media st (k, RelSector)) Offset Buffer of
             (rc, None) \<Rightarrow> (rc, st)
           | (rc, Some content) \<Rightarrow>
               (rc, st\<lparr>media := (media st)((k, RelSector) := content),
                       journal := journal st @ [OpWrite why Sector Offset Buffer]\<rparr>)))"

definition EraseSector :: "ffs \<Rightarrow> ulong \<Rightarrow> int \<times> ffs" where
  "EraseSector st Sector =
     (case GetFlashSectionEntry st Sector of
        None \<Rightarrow> (FFS_RC_INVALID_SECTOR_NUMBER, st)
      | Some (k, RelSector) \<Rightarrow>
          (case section_Erase (FlashSectionTable st ! k) (media st (k, RelSector)) of
             (rc, None) \<Rightarrow> (rc, st)
           | (rc, Some content) \<Rightarrow>
               (rc, st\<lparr>media := (media st)((k, RelSector) := content),
                       journal := journal st @ [OpErase Sector]\<rparr>)))"

text \<open>
  A read into a variable: the variable keeps its value when the read fails. \<open>None\<close> is a
  variable that nothing has written yet.
\<close>

definition read_into :: "'a option \<Rightarrow> (byte list \<Rightarrow> 'a) \<Rightarrow> int \<times> byte list option \<Rightarrow> 'a option" where
  "read_into var decode r = (case snd r of None \<Rightarrow> var | Some bs \<Rightarrow> Some (decode bs))"

section \<open>File table\<close>

definition zero_fnode :: FFS_FILE_NODE where
  "zero_fnode =
     \<lparr>Permissions = 0, Filename = replicate 65 0, Padding = replicate 2 0,
      FileSize = 0, DataTime = 0, Count = 0\<rparr>"

text \<open>A descriptor after \<^verbatim>\<open>memset\<close> to zero.\<close>

definition zero_descriptor :: FFS_FILE_DESCRIPTOR where
  "zero_descriptor =
     \<lparr>InUse = 0, Flags = 0, DeleteOldFile = 0, WriteFnode = 0, FnodeSector = 0,
      OldFnodeSector = 0, Position = 0, Fnode = zero_fnode\<rparr>"

definition set_descriptor :: "ffs \<Rightarrow> nat \<Rightarrow> FFS_FILE_DESCRIPTOR \<Rightarrow> ffs" where
  "set_descriptor st fd d = st\<lparr>FileDescriptors := (FileDescriptors st)(fd := d)\<rparr>"

text \<open>\<^verbatim>\<open>GetDescriptor\<close>: the loop over \<open>fd\<close>, with the number of entries still to look at.\<close>

primrec GetDescriptor_loop :: "nat \<Rightarrow> nat \<Rightarrow> ffs \<Rightarrow> int \<times> ffs" where
  "GetDescriptor_loop 0 fd st = (FFS_RC_TOO_MANY_OPEN_FILES, st)"
| "GetDescriptor_loop (Suc left) fd st =
     (if InUse (FileDescriptors st fd) = 0
      then (int fd, set_descriptor st fd (zero_descriptor\<lparr>InUse := 1\<rparr>))
      else GetDescriptor_loop left (Suc fd) st)"

definition GetDescriptor :: "ffs \<Rightarrow> int \<times> ffs" where
  "GetDescriptor st = GetDescriptor_loop FFS_MAX_FILE_DESCRIPTORS 0 st"

definition FreeDescriptor :: "ffs \<Rightarrow> nat \<Rightarrow> ffs" where
  "FreeDescriptor st fd = set_descriptor st fd ((FileDescriptors st fd)\<lparr>InUse := 0\<rparr>)"

definition Initialize :: "ffs \<Rightarrow> ffs" where
  "Initialize st = (if \<not> initializationComplete st then st\<lparr>initializationComplete := True\<rparr> else st)"

text \<open>
  The sanity check at the head of \<^verbatim>\<open>close\<close>, \<^verbatim>\<open>read\<close> and \<^verbatim>\<open>write\<close>:
  \<^verbatim>\<open>fd > FFS_MAX_FILE_DESCRIPTORS || !FileDescriptors[fd].InUse\<close>. The second operand
  indexes the table with every \<open>fd\<close> that the first lets through; the table has the
  entries 0 and 1. \<open>Inr True\<close> is a descriptor that passes.
\<close>

definition SanityCheck :: "ffs \<Rightarrow> int \<Rightarrow> fault + bool" where
  "SanityCheck st fd =
     (if fd > int FFS_MAX_FILE_DESCRIPTORS then Inr False
      else if fd < 0 \<or> int FFS_MAX_FILE_DESCRIPTORS \<le> fd then Inl DescriptorTableOutOfBounds
      else if InUse (FileDescriptors st (nat fd)) = 0 then Inr False
      else Inr True)"

section \<open>Sector chains and allocation\<close>

text \<open>
  \<^verbatim>\<open>LocateFileNode\<close>. The file name \<open>name\<close> is the list of its characters, without
  the NUL; \<open>fnode\<close> is the local \<^verbatim>\<open>Fnode\<close>.
  \<^verbatim>\<open>CompName\<close> and \<^verbatim>\<open>FnodeName\<close> are arrays of 65 bytes filled by \<^verbatim>\<open>strcpy\<close>.
  The result is the file node and its sector, or \<open>None\<close> where the code stores
  \<^verbatim>\<open>-1\<close> in \<^verbatim>\<open>*RtnSector\<close> and leaves \<^verbatim>\<open>*RtnFnode\<close> alone.
\<close>

primrec LocateFileNode_loop ::
  "nat \<Rightarrow> ffs \<Rightarrow> byte list \<Rightarrow> ulong \<Rightarrow> FFS_SECTOR_HEADER option \<Rightarrow> FFS_FILE_NODE option
     \<Rightarrow> fault + (FFS_FILE_NODE \<times> ulong) option" where
  "LocateFileNode_loop 0 st CompName Sector SecHead fnode = Inl OutOfFuel"
| "LocateFileNode_loop (Suc fuel) st CompName Sector SecHead fnode =
     (if \<not> ValidSector st Sector then Inr None
      else
        (case read_into SecHead header_of (ReadSector st Sector 0 SIZEOF_SECTOR_HEADER) of
           None \<Rightarrow> Inl UninitialisedRead
         | Some h \<Rightarrow>
             if Status h = FFS_SECTOR_HEADER_INUSE_FILENODE then
               (case read_into fnode fnode_of
                       (ReadSector st Sector SIZEOF_SECTOR_HEADER SIZEOF_FILE_NODE) of
                  None \<Rightarrow> Inl UninitialisedRead
                | Some f \<Rightarrow>
                    if FFS_MAX_FILENAME_LENGTH < length (cstr (Filename f)) then Inl StringOverrun
                    else if StringToUpperCase (cstr (Filename f)) = CompName
                    then Inr (Some (f, Sector))
                    else LocateFileNode_loop fuel st CompName (Sector + 1) (Some h) (Some f))
             else LocateFileNode_loop fuel st CompName (Sector + 1) (Some h) fnode))"

definition LocateFileNode ::
  "nat \<Rightarrow> ffs \<Rightarrow> byte list \<Rightarrow> fault + (FFS_FILE_NODE \<times> ulong) option" where
  "LocateFileNode fuel st name =
     (if FFS_MAX_FILENAME_LENGTH < length name then Inl StringOverrun
      else LocateFileNode_loop fuel st (StringToUpperCase name) 0 None None)"

text \<open>
  \<^verbatim>\<open>FindFreeSector\<close>. \<^verbatim>\<open>SecHeader\<close> is the caller's variable. A sector is found with
  its number, the header read from it and the index of its section.
\<close>

primrec FindFreeSector_loop ::
  "nat \<Rightarrow> ffs \<Rightarrow> ulong \<Rightarrow> FFS_SECTOR_HEADER option
     \<Rightarrow> fault + (ffs \<times> (ulong \<times> FFS_SECTOR_HEADER \<times> nat) option)" where
  "FindFreeSector_loop 0 st Sector SecHeader = Inl OutOfFuel"
| "FindFreeSector_loop (Suc fuel) st Sector SecHeader =
     (case GetFlashSectionEntry st Sector of
        None \<Rightarrow> Inr (st, None)
      | Some (k, RelSector) \<Rightarrow>
          (case read_into SecHeader header_of (ReadSector st Sector 0 SIZEOF_SECTOR_HEADER) of
             None \<Rightarrow> Inl UninitialisedRead
           | Some h \<Rightarrow>
               if Key h = FFS_SECTOR_HEADER_KEY then
                 (if Status h = FFS_SECTOR_HEADER_FREE \<or> Status h = FFS_SECTOR_HEADER_FREE_DIRTY
                  then Inr (st, Some (Sector, h, k))
                  else FindFreeSector_loop fuel st (Sector + 1) (Some h))
               else
                 Inr (st\<lparr>ErrorSectorCount :=
                           (if 1 > ErrorSectorCount st then 1 else ErrorSectorCount st)\<rparr>,
                      Some (Sector, h, k))))"

definition FindFreeSector ::
  "nat \<Rightarrow> ffs \<Rightarrow> FFS_SECTOR_HEADER option
     \<Rightarrow> fault + (ffs \<times> (ulong \<times> FFS_SECTOR_HEADER \<times> nat) option)" where
  "FindFreeSector fuel st SecHeader = FindFreeSector_loop fuel st 0 SecHeader"

text \<open>
  \<^verbatim>\<open>AllocateSector\<close> and \<^verbatim>\<open>AllocateSectorWithFilenode\<close>: the return code, and the new
  sector with the header written to it when the code is 0. The results of
  \<^verbatim>\<open>EraseSector\<close> and \<^verbatim>\<open>WriteSector\<close> are not looked at.
\<close>

definition AllocateSector ::
  "nat \<Rightarrow> ffs \<Rightarrow> FFS_SECTOR_HEADER option
     \<Rightarrow> fault + (int \<times> ffs \<times> (ulong \<times> FFS_SECTOR_HEADER) option)" where
  "AllocateSector fuel st SecHeader =
     (case FindFreeSector fuel st SecHeader of
        Inl e \<Rightarrow> Inl e
      | Inr (st1, None) \<Rightarrow> Inr (FFS_RC_OUT_OF_SPACE, st1, None)
      | Inr (st1, Some (NewSector, h, k)) \<Rightarrow>
          (let h' = \<lparr>Key = FFS_SECTOR_HEADER_KEY, Next = NO_SECTOR,
                     EraseCount = EraseCount h + 1, Version = FFS_FILE_SYSTEM_VERSION,
                     Status = FFS_SECTOR_HEADER_INUSE, SectorChecksum = 0xffff,
                     SectorLength = SectorSize (FlashSectionTable st1 ! k),
                     DataOffset = SIZEOF_SECTOR_HEADER\<rparr>;
               st2 = snd (EraseSector st1 NewSector);
               st3 = snd (WriteSector st2 HeaderImage NewSector 0 (header_bytes h'))
           in Inr (0, st3, Some (NewSector, h'))))"

definition AllocateSectorWithFilenode ::
  "nat \<Rightarrow> ffs \<Rightarrow> FFS_SECTOR_HEADER option
     \<Rightarrow> fault + (int \<times> ffs \<times> (ulong \<times> FFS_SECTOR_HEADER) option)" where
  "AllocateSectorWithFilenode fuel st SecHeader =
     (case FindFreeSector fuel st SecHeader of
        Inl e \<Rightarrow> Inl e
      | Inr (st1, None) \<Rightarrow> Inr (FFS_RC_OUT_OF_SPACE, st1, None)
      | Inr (st1, Some (NewSector, h, k)) \<Rightarrow>
          (let h' = \<lparr>Key = FFS_SECTOR_HEADER_KEY, Next = NO_SECTOR,
                     EraseCount = EraseCount h + 1, Version = FFS_FILE_SYSTEM_VERSION,
                     Status = FFS_SECTOR_HEADER_INUSE_FILENODE, SectorChecksum = 0xffff,
                     SectorLength = SectorSize (FlashSectionTable st1 ! k),
                     DataOffset = SIZEOF_SECTOR_HEADER + SIZEOF_FILE_NODE\<rparr>;
               st2 = snd (EraseSector st1 NewSector);
               st3 = snd (WriteSector st2 HeaderImage NewSector 0 (header_bytes h'))
           in Inr (0, st3, Some (NewSector, h'))))"

text \<open>
  The four bytes from \<^verbatim>\<open>&SecHead.Version\<close> on: Version, Status and SectorChecksum.
\<close>

definition version_word :: "FFS_SECTOR_HEADER \<Rightarrow> byte list" where
  "version_word h = take 4 (drop (unat OFFSET_OF_VERSION) (header_bytes h))"

text \<open>\<^verbatim>\<open>FreeSectors\<close>; its return value is always 0.\<close>

primrec FreeSectors_loop :: "nat \<Rightarrow> ffs \<Rightarrow> ulong \<Rightarrow> FFS_SECTOR_HEADER option \<Rightarrow> fault + ffs" where
  "FreeSectors_loop 0 st Sector SecHead = Inl OutOfFuel"
| "FreeSectors_loop (Suc fuel) st Sector SecHead =
     (if Sector = NO_SECTOR then Inr st
      else
        (case read_into SecHead header_of (ReadSector st Sector 0 SIZEOF_SECTOR_HEADER) of
           None \<Rightarrow> Inl UninitialisedRead
         | Some h \<Rightarrow>
             (let NextSector = Next h;
                  h' = h\<lparr>Status := FFS_SECTOR_HEADER_FREE_DIRTY\<rparr>;
                  st' = snd (WriteSector st StatusMark Sector OFFSET_OF_VERSION (version_word h'))
              in FreeSectors_loop fuel st' NextSector (Some h'))))"

definition FreeSectors :: "nat \<Rightarrow> ffs \<Rightarrow> ulong \<Rightarrow> fault + ffs" where
  "FreeSectors fuel st Sector = FreeSectors_loop fuel st Sector None"

text \<open>
  \<^verbatim>\<open>LocatePosition\<close>: the return code and, when it is 0, the sector, its header and the
  offset. \<open>Cnt\<close> is the local \<^verbatim>\<open>Count\<close>.
\<close>

primrec LocatePosition_loop ::
  "nat \<Rightarrow> ffs \<Rightarrow> ulong \<Rightarrow> ulong \<Rightarrow> ulong
     \<Rightarrow> fault + (int \<times> (ulong \<times> FFS_SECTOR_HEADER \<times> ulong) option)" where
  "LocatePosition_loop 0 st Pos Sector Cnt = Inl OutOfFuel"
| "LocatePosition_loop (Suc fuel) st Pos Sector Cnt =
     (case ReadSector st Sector 0 SIZEOF_SECTOR_HEADER of
        (rc, r) \<Rightarrow>
          if rc < 0 then Inr (rc, None)
          else
            (case r of
               None \<Rightarrow> Inl UninitialisedRead
             | Some bs \<Rightarrow>
                 (let SecHead = header_of bs in
                  if Pos < Cnt + (SectorLength SecHead - DataOffset SecHead)
                  then Inr (0, Some (Sector, SecHead, DataOffset SecHead + (Pos - Cnt)))
                  else LocatePosition_loop fuel st Pos (Next SecHead)
                         (Cnt + (SectorLength SecHead - DataOffset SecHead)))))"

definition LocatePosition ::
  "nat \<Rightarrow> ffs \<Rightarrow> FFS_FILE_DESCRIPTOR \<Rightarrow> ulong
     \<Rightarrow> fault + (int \<times> (ulong \<times> FFS_SECTOR_HEADER \<times> ulong) option)" where
  "LocatePosition fuel st Fdesc Pos = LocatePosition_loop fuel st Pos (FnodeSector Fdesc) 0"

section \<open>File operations\<close>

text \<open>
  \<^verbatim>\<open>open\<close>. \<open>name\<close> is the file name, \<open>d1\<close> the descriptor after
  \<^verbatim>\<open>LocateFileNode\<close>, \<open>d2\<close> after the create branch, whose test is
  \<^verbatim>\<open>flags && FFS_CREATE\<close>. \<^verbatim>\<open>FFS_LOCK\<close> and \<^verbatim>\<open>FFS_UNLOCK\<close> have no effect on
  the state.
\<close>

definition FFSOpen :: "nat \<Rightarrow> ffs \<Rightarrow> byte list \<Rightarrow> int \<Rightarrow> int \<Rightarrow> fault + (int \<times> ffs)" where
  "FFSOpen fuel st0 name flags permissions =
     (case GetDescriptor (Initialize st0) of
        (fd, st) \<Rightarrow>
          if fd < 0 then Inr (fd, st)
          else
            (case LocateFileNode fuel st name of
               Inl e \<Rightarrow> Inl e
             | Inr found \<Rightarrow>
                 (let d0 = FileDescriptors st (nat fd);
                      d1 = (case found of
                              None \<Rightarrow> d0\<lparr>FnodeSector := NO_SECTOR\<rparr>
                            | Some (f, s) \<Rightarrow> d0\<lparr>Fnode := f, FnodeSector := s\<rparr>)
                  in
                  if flags AND FFS_CREATE = 0 \<and> FnodeSector d1 = NO_SECTOR
                  then Inr (FFS_RC_FILE_DOES_NOT_EXIST,
                            FreeDescriptor (set_descriptor st (nat fd) d1) (nat fd))
                  else
                    (let d2 =
                       (if flags \<noteq> 0 \<and> FFS_CREATE \<noteq> 0 then
                          (let CreateCount =
                                 (if FnodeSector d1 \<noteq> NO_SECTOR then Count (Fnode d1) + 1 else 0);
                               d1a =
                                 (if FnodeSector d1 \<noteq> NO_SECTOR
                                  then d1\<lparr>DeleteOldFile := 1, OldFnodeSector := FnodeSector d1\<rparr>
                                  else d1\<lparr>Fnode := (Fnode d1)\<lparr>Filename :=
                                         (if FFS_MAX_FILENAME_LENGTH + 1 \<le> length name
                                          then take FFS_MAX_FILENAME_LENGTH name @ [0]
                                          else strcpy (Filename (Fnode d1)) name)\<rparr>\<rparr>)
                           in d1a\<lparr>FnodeSector := NO_SECTOR,
                                  Fnode := (Fnode d1a)\<lparr>FileSize := 0,
                                             Permissions := word_of_int permissions,
                                             Count := CreateCount\<rparr>\<rparr>)
                        else d1)
                     in Inr (fd, set_descriptor st (nat fd) (d2\<lparr>Flags := word_of_int flags\<rparr>))))))"

text \<open>\<^verbatim>\<open>close\<close>.\<close>

definition FFSClose :: "nat \<Rightarrow> ffs \<Rightarrow> int \<Rightarrow> fault + (int \<times> ffs)" where
  "FFSClose fuel st fd =
     (case SanityCheck st fd of
        Inl e \<Rightarrow> Inl e
      | Inr False \<Rightarrow> Inr (FFS_RC_INVALID_FILE_DESCRIPTOR, st)
      | Inr True \<Rightarrow>
          (let Fdesc = FileDescriptors st (nat fd);
               st1 = (if WriteFnode Fdesc \<noteq> 0
                      then snd (WriteSector st FnodeImage (FnodeSector Fdesc) SIZEOF_SECTOR_HEADER
                                  (fnode_bytes (Fnode Fdesc)))
                      else st)
           in
           (case (if DeleteOldFile Fdesc \<noteq> 0 then FreeSectors fuel st1 (OldFnodeSector Fdesc)
                  else Inr st1) of
              Inl e \<Rightarrow> Inl e
            | Inr st2 \<Rightarrow> Inr (0, FreeDescriptor st2 (nat fd)))))"

text \<open>
  The cursor after a transfer of \<open>RemLen\<close> bytes; \<^verbatim>\<open>write\<close> also raises
  \<^verbatim>\<open>FileSize\<close> to it.
\<close>

definition advance_read :: "ffs \<Rightarrow> nat \<Rightarrow> ulong \<Rightarrow> ffs" where
  "advance_read st fd RemLen =
     (let d = FileDescriptors st fd
      in set_descriptor st fd (d\<lparr>Position := Position d + RemLen\<rparr>))"

definition advance_write :: "ffs \<Rightarrow> nat \<Rightarrow> ulong \<Rightarrow> ffs" where
  "advance_write st fd RemLen =
     (let d = FileDescriptors st fd;
          d1 = d\<lparr>Position := Position d + RemLen\<rparr>
      in set_descriptor st fd
           (if Position d1 > FileSize (Fnode d1)
            then d1\<lparr>Fnode := (Fnode d1)\<lparr>FileSize := Position d1\<rparr>\<rparr> else d1))"

text \<open>The caller's buffer \<open>buf\<close> with \<open>bs\<close> stored from index \<open>bufpos\<close> on.\<close>

definition store :: "byte list \<Rightarrow> nat \<Rightarrow> byte list \<Rightarrow> fault + byte list" where
  "store buf bufpos bs =
     (if bufpos + length bs \<le> length buf
      then Inr (take bufpos buf @ bs @ drop (bufpos + length bs) buf)
      else Inl BufferOverrun)"

text \<open>
  The loop of \<^verbatim>\<open>read\<close>. \<open>bufpos\<close> is how far \<^verbatim>\<open>buf\<close> has moved, \<open>n\<close> the
  \<^verbatim>\<open>int n\<close> as the comparisons with \<^verbatim>\<open>unsigned long\<close> values see it.
\<close>

primrec read_loop ::
  "nat \<Rightarrow> ffs \<Rightarrow> nat \<Rightarrow> byte list \<Rightarrow> nat \<Rightarrow> ulong \<Rightarrow> ulong \<Rightarrow> FFS_SECTOR_HEADER \<Rightarrow> ulong \<Rightarrow> ulong
     \<Rightarrow> fault + (int \<times> ffs \<times> byte list)" where
  "read_loop 0 st fd buf bufpos n Sector SecHead Offset TotalRead = Inl OutOfFuel"
| "read_loop (Suc fuel) st fd buf bufpos n Sector SecHead Offset TotalRead =
     (if n = 0 then Inr (sint TotalRead, st, buf)
      else
        (let RemLen = (if n < SectorLength SecHead - Offset then n
                       else SectorLength SecHead - Offset)
         in
         (case (case snd (ReadSector st Sector Offset RemLen) of
                  None \<Rightarrow> Inr buf
                | Some bs \<Rightarrow> store buf bufpos bs) of
            Inl e \<Rightarrow> Inl e
          | Inr buf1 \<Rightarrow>
              (let n1 = n - RemLen;
                   st1 = advance_read st fd RemLen;
                   TotalRead1 = TotalRead + RemLen
               in
               if n1 = 0 then Inr (sint TotalRead1, st1, buf1)
               else
                 (case ReadSector st1 (Next SecHead) 0 SIZEOF_SECTOR_HEADER of
                    (rc, r) \<Rightarrow>
                      if rc < 0 then Inr (rc, st1, buf1)
                      else
                        (case r of
                           None \<Rightarrow> Inl UninitialisedRead
                         | Some hb \<Rightarrow>
                             read_loop fuel st1 fd buf1 (bufpos + unat RemLen) n1 (Next SecHead)
                               (header_of hb) (DataOffset (header_of hb)) TotalRead1))))))"

text \<open>
  \<^verbatim>\<open>read\<close>: the return code, the state and the caller's buffer, which holds \<open>buf\<close>
  before the call.
\<close>

definition FFSRead :: "nat \<Rightarrow> ffs \<Rightarrow> int \<Rightarrow> byte list \<Rightarrow> int \<Rightarrow> fault + (int \<times> ffs \<times> byte list)" where
  "FFSRead fuel st fd buf n =
     (case SanityCheck st fd of
        Inl e \<Rightarrow> Inl e
      | Inr False \<Rightarrow> Inr (FFS_RC_INVALID_FILE_DESCRIPTOR, st, buf)
      | Inr True \<Rightarrow>
          (let Fdesc = FileDescriptors st (nat fd) in
           if Position Fdesc \<ge> FileSize (Fnode Fdesc)
           then Inr (FFS_RC_INVALID_FILE_POSITION, st, buf)
           else
             (case LocatePosition fuel st Fdesc (Position Fdesc) of
                Inl e \<Rightarrow> Inl e
              | Inr (rc, None) \<Rightarrow> Inr (rc, st, buf)
              | Inr (rc, Some (Sector, SecHead, Offset)) \<Rightarrow>
                  (let n0 = (word_of_int n :: ulong);
                       n1 = (if n0 > FileSize (Fnode Fdesc) - Position Fdesc
                             then FileSize (Fnode Fdesc) - Position Fdesc else n0)
                   in read_loop fuel st (nat fd) buf 0 n1 Sector SecHead Offset 0))))"

text \<open>The loop of \<^verbatim>\<open>write\<close>; \<open>buf\<close> holds the bytes at \<^verbatim>\<open>buf\<close> on entry.\<close>

primrec write_loop ::
  "nat \<Rightarrow> ffs \<Rightarrow> nat \<Rightarrow> byte list \<Rightarrow> nat \<Rightarrow> ulong \<Rightarrow> ulong \<Rightarrow> FFS_SECTOR_HEADER \<Rightarrow> ulong \<Rightarrow> ulong
     \<Rightarrow> fault + (int \<times> ffs)" where
  "write_loop 0 st fd buf bufpos n Sector SecHead Offset TotalWritten = Inl OutOfFuel"
| "write_loop (Suc fuel) st fd buf bufpos n Sector SecHead Offset TotalWritten =
     (if n = 0 then Inr (sint TotalWritten, st)
      else
        (let RemLen = (if n < SectorLength SecHead - Offset then n
                       else SectorLength SecHead - Offset)
         in
         if length buf < bufpos + unat RemLen then Inl BufferOverrun
         else
           (let st1 = snd (WriteSector st FileData Sector Offset
                             (take (unat RemLen) (drop bufpos buf)));
                n1 = n - RemLen;
                st2 = advance_write st1 fd RemLen;
                TotalWritten1 = TotalWritten + RemLen
            in
            if n1 = 0 then Inr (sint TotalWritten1, st2)
            else
              (case AllocateSector fuel st2 (Some SecHead) of
                 Inl e \<Rightarrow> Inl e
               | Inr (rc, st3, None) \<Rightarrow> Inr (rc, st3)
               | Inr (rc, st3, Some (NewSector, SecHead1)) \<Rightarrow>
                   (let st4 = snd (WriteSector st3 NextLink Sector OFFSET_OF_NEXT (le32 NewSector))
                    in write_loop fuel st4 fd buf (bufpos + unat RemLen) n1 NewSector SecHead1
                         SIZEOF_SECTOR_HEADER TotalWritten1)))))"

text \<open>\<^verbatim>\<open>write\<close>.\<close>

definition FFSWrite :: "nat \<Rightarrow> ffs \<Rightarrow> int \<Rightarrow> byte list \<Rightarrow> int \<Rightarrow> fault + (int \<times> ffs)" where
  "FFSWrite fuel st fd buf n =
     (case SanityCheck st fd of
        Inl e \<Rightarrow> Inl e
      | Inr False \<Rightarrow> Inr (FFS_RC_INVALID_FILE_DESCRIPTOR, st)
      | Inr True \<Rightarrow>
          (let Fdesc = FileDescriptors st (nat fd) in
           if FnodeSector Fdesc = NO_SECTOR then
             (case AllocateSectorWithFilenode fuel st None of
                Inl e \<Rightarrow> Inl e
              | Inr (rc, st1, None) \<Rightarrow> Inr (rc, st1)
              | Inr (rc, st1, Some (Sector, SecHead)) \<Rightarrow>
                  (let st2 = set_descriptor st1 (nat fd)
                               ((FileDescriptors st1 (nat fd))\<lparr>WriteFnode := 1, FnodeSector := Sector\<rparr>)
                   in write_loop fuel st2 (nat fd) buf 0 (word_of_int n) Sector SecHead
                        (SIZEOF_SECTOR_HEADER + SIZEOF_FILE_NODE) 0))
           else
             (case LocatePosition fuel st Fdesc (Position Fdesc) of
                Inl e \<Rightarrow> Inl e
              | Inr (rc, None) \<Rightarrow> Inr (rc, st)
              | Inr (rc, Some (Sector, SecHead, Offset)) \<Rightarrow>
                  write_loop fuel st (nat fd) buf 0 (word_of_int n) Sector SecHead Offset 0)))"

text \<open>
  \<^verbatim>\<open>Rename\<close>: the loop that copies the payload of the old head sector in pieces of at
  most \<^verbatim>\<open>sizeof(Buffer)\<close> bytes. \<open>Buffer\<close> holds what the last read that worked
  has put there. \<open>Len\<close> is the local \<^verbatim>\<open>Length\<close>.
\<close>

abbreviation (input) SIZEOF_BUFFER :: ulong where "SIZEOF_BUFFER \<equiv> 100"

function Rename_copy_loop ::
  "ffs \<Rightarrow> ulong \<Rightarrow> ulong \<Rightarrow> ulong \<Rightarrow> ulong \<Rightarrow> byte list option \<Rightarrow> fault + ffs" where
  "Rename_copy_loop st Sector NewSector Offset Len Buffer =
     (if Len = 0 then Inr st
      else
        (let n = (if Len < SIZEOF_BUFFER then Len else SIZEOF_BUFFER) in
         (case read_into Buffer id (ReadSector st Sector Offset n) of
            None \<Rightarrow> Inl UninitialisedRead
          | Some bs \<Rightarrow>
              (let st1 = snd (WriteSector st FileData NewSector Offset (take (unat n) bs))
               in Rename_copy_loop st1 Sector NewSector (Offset + n) (Len - n) (Some bs)))))"
  by pat_completeness auto
termination
proof (relation "measure (\<lambda>(st, Sector, NewSector, Offset, Len, Buffer). unat Len)")
  show "wf (measure (\<lambda>(st, Sector, NewSector, Offset, Len, Buffer). unat Len))"
    by simp
next
  fix st :: ffs and Sector NewSector Offset Len :: ulong and Buffer :: "byte list option"
    and n :: ulong and bs :: "byte list" and st1 :: ffs
  assume nz: "Len \<noteq> 0" and n: "n = (if Len < SIZEOF_BUFFER then Len else SIZEOF_BUFFER)"
  have "n \<le> Len" "n \<noteq> 0"
    using nz n by (auto simp: not_less)
  then have "unat (Len - n) < unat Len"
    by (simp add: unat_sub unat_gt_0 word_le_nat_alt)
       (metis diff_less unat_gt_0 nz)
  then show "((st1, Sector, NewSector, Offset + n, Len - n, Some bs),
              (st, Sector, NewSector, Offset, Len, Buffer))
             \<in> measure (\<lambda>(st, Sector, NewSector, Offset, Len, Buffer). unat Len)"
    by simp
qed

declare Rename_copy_loop.simps [simp del]

text \<open>\<^verbatim>\<open>Rename\<close>. \<open>name\<close> and \<open>new_name\<close> are the two file names.\<close>

definition FFSRename :: "nat \<Rightarrow> ffs \<Rightarrow> byte list \<Rightarrow> byte list \<Rightarrow> fault + (int \<times> ffs)" where
  "FFSRename fuel st0 name new_name =
     (let st = Initialize st0 in
      case LocateFileNode fuel st name of
        Inl e \<Rightarrow> Inl e
      | Inr None \<Rightarrow> Inr (FFS_RC_FILE_NOT_FOUND, st)
      | Inr (Some (f, Sector)) \<Rightarrow>
          (case LocateFileNode fuel st new_name of
             Inl e \<Rightarrow> Inl e
           | Inr (Some found) \<Rightarrow> Inr (FFS_RC_NEW_NAME_EXISTS, st)
           | Inr None \<Rightarrow>
               (case read_into None header_of (ReadSector st Sector 0 SIZEOF_SECTOR_HEADER) of
                  None \<Rightarrow> Inl UninitialisedRead
                | Some SecHead0 \<Rightarrow>
                    (let Len = SectorLength SecHead0 - DataOffset SecHead0;
                         NextSector = Next SecHead0
                     in
                     case AllocateSectorWithFilenode fuel st (Some SecHead0) of
                       Inl e \<Rightarrow> Inl e
                     | Inr (rc, st1, None) \<Rightarrow> Inr (rc, st1)
                     | Inr (rc, st1, Some (NewSector, SecHead)) \<Rightarrow>
                         if Len \<noteq> SectorLength SecHead - DataOffset SecHead
                         then (case FreeSectors fuel st1 NewSector of
                                 Inl e \<Rightarrow> Inl e
                               | Inr st2 \<Rightarrow> Inr (FFS_RC_OUT_OF_SPACE, st2))
                         else
                           (case Rename_copy_loop st1 Sector NewSector (DataOffset SecHead) Len None of
                              Inl e \<Rightarrow> Inl e
                            | Inr st2 \<Rightarrow>
                                (let f' = f\<lparr>Filename :=
                                             (if FFS_MAX_FILENAME_LENGTH + 1 \<le> length new_name
                                              then take FFS_MAX_FILENAME_LENGTH new_name @ [0]
                                              else strcpy (Filename f) new_name)\<rparr>;
                                     st3 = snd (WriteSector st2 FnodeImage NewSector
                                                  SIZEOF_SECTOR_HEADER (fnode_bytes f'));
                                     st4 = (if NextSector \<noteq> NO_SECTOR
                                            then snd (WriteSector st3 NextLink NewSector
                                                        OFFSET_OF_NEXT (le32 NextSector))
                                            else st3);
                                     st5 = snd (WriteSector st4 StatusMark Sector OFFSET_OF_VERSION
                                                  (version_word
                                                     (SecHead\<lparr>Status := FFS_SECTOR_HEADER_FREE_DIRTY\<rparr>)))
                                 in Inr (0, st5)))))))"

section \<open>Check\<close>

text \<open>The count of all sectors of the section table.\<close>

fun TotalSectors_loop :: "FFS_FLASH_SECTION list \<Rightarrow> ulong \<Rightarrow> ulong" where
  "TotalSectors_loop [] cnt = cnt"
| "TotalSectors_loop (s # rest) cnt =
     (if Device s = 0xff then cnt
      else TotalSectors_loop rest (cnt + FFS_FLASH_SECTION.Count s))"

text \<open>A read into a variable that has a value: it keeps the value when the read fails.\<close>

definition read_over :: "'a \<Rightarrow> (byte list \<Rightarrow> 'a) \<Rightarrow> int \<times> byte list option \<Rightarrow> 'a" where
  "read_over var decode r = (case snd r of None \<Rightarrow> var | Some bs \<Rightarrow> decode bs)"

text \<open>\<open>arr\<close> with the bits \<open>b\<close> set in the entry of \<open>Sector\<close>.\<close>

definition mark :: "(nat \<Rightarrow> byte) \<Rightarrow> ulong \<Rightarrow> byte \<Rightarrow> nat \<Rightarrow> byte" where
  "mark arr Sector b = arr(unat Sector := arr (unat Sector) OR b)"

text \<open>
  First pass, the walk along the chain of a file. \<open>arr\<close> is \<^verbatim>\<open>SectorArray\<close>, which has
  \<^verbatim>\<open>TotalSectors\<close> entries.
\<close>

primrec Check_chain_loop ::
  "nat \<Rightarrow> ffs \<Rightarrow> (nat \<Rightarrow> byte) \<Rightarrow> ulong \<Rightarrow> FFS_SECTOR_HEADER
     \<Rightarrow> fault + (ffs \<times> (nat \<Rightarrow> byte) \<times> FFS_SECTOR_HEADER)" where
  "Check_chain_loop 0 st arr NextSector SecHeader = Inl OutOfFuel"
| "Check_chain_loop (Suc fuel) st arr NextSector SecHeader =
     (if NextSector = NO_SECTOR then Inr (st, arr, SecHeader)
      else
        (let h = read_over SecHeader header_of (ReadSector st NextSector 0 SIZEOF_SECTOR_HEADER) in
         if \<not> NextSector < TotalSectors st then Inl SectorArrayOutOfBounds
         else
           (let st1 = (if arr (unat NextSector) AND CHECK_SECTOR_FREE \<noteq> 0
                          \<or> arr (unat NextSector) AND CHECK_SECTOR_FNODE \<noteq> 0
                          \<or> arr (unat NextSector) AND CHECK_SECTOR_BAD \<noteq> 0
                       then st\<lparr>TotalCrossChain := TotalCrossChain st + 1\<rparr> else st)
            in Check_chain_loop fuel st1 (mark arr NextSector CHECK_SECTOR_INUSE) (Next h) h)))"

text \<open>First pass, the body of the loop over the sectors; \<open>fnode\<close> is the local \<^verbatim>\<open>Fnode\<close>.\<close>

definition Check_classify ::
  "nat \<Rightarrow> ffs \<Rightarrow> (nat \<Rightarrow> byte) \<Rightarrow> ulong \<Rightarrow> FFS_SECTOR_HEADER option \<Rightarrow> FFS_FILE_NODE option
     \<Rightarrow> fault + (ffs \<times> (nat \<Rightarrow> byte) \<times> FFS_SECTOR_HEADER option \<times> FFS_FILE_NODE option)" where
  "Check_classify fuel st arr Sector SecHeader fnode =
     (case read_into SecHeader header_of (ReadSector st Sector 0 SIZEOF_SECTOR_HEADER) of
        None \<Rightarrow> Inl UninitialisedRead
      | Some h \<Rightarrow>
          (let arr1 = (if Key h \<noteq> FFS_SECTOR_HEADER_KEY
                          \<and> Status h \<noteq> FFS_SECTOR_HEADER_FREE
                          \<and> Status h \<noteq> FFS_SECTOR_HEADER_FREE_DIRTY
                       then mark arr Sector CHECK_SECTOR_BAD else arr)
           in
           if Status h = FFS_SECTOR_HEADER_FREE \<or> Status h = FFS_SECTOR_HEADER_FREE_DIRTY
           then Inr (st, mark arr1 Sector CHECK_SECTOR_FREE, Some h, fnode)
           else if Status h = FFS_SECTOR_HEADER_INUSE
           then Inr (st, arr1, Some h, fnode)
           else if Status h = FFS_SECTOR_HEADER_INUSE_FILENODE
           then
             (case read_into fnode fnode_of
                     (ReadSector st Sector SIZEOF_SECTOR_HEADER SIZEOF_FILE_NODE) of
                None \<Rightarrow> Inl UninitialisedRead
              | Some f \<Rightarrow>
                  if FileSize f = 0 \<or> FileSize f = NO_SECTOR
                  then Inr (st, mark arr1 Sector CHECK_SECTOR_BAD, Some h, Some f)
                  else
                    (case Check_chain_loop fuel st (mark arr1 Sector CHECK_SECTOR_FNODE) (Next h) h of
                       Inl e \<Rightarrow> Inl e
                     | Inr (st1, arr2, h1) \<Rightarrow> Inr (st1, arr2, Some h1, Some f)))
           else Inr (st, arr1, Some h, fnode)))"

primrec Check_classify_loop ::
  "nat \<Rightarrow> ffs \<Rightarrow> (nat \<Rightarrow> byte) \<Rightarrow> ulong \<Rightarrow> FFS_SECTOR_HEADER option \<Rightarrow> FFS_FILE_NODE option
     \<Rightarrow> fault + (ffs \<times> (nat \<Rightarrow> byte) \<times> FFS_SECTOR_HEADER option \<times> FFS_FILE_NODE option)" where
  "Check_classify_loop 0 st arr Sector SecHeader fnode = Inl OutOfFuel"
| "Check_classify_loop (Suc fuel) st arr Sector SecHeader fnode =
     (if \<not> Sector < TotalSectors st then Inr (st, arr, SecHeader, fnode)
      else
        (case Check_classify fuel st arr Sector SecHeader fnode of
           Inl e \<Rightarrow> Inl e
         | Inr (st1, arr1, SecHeader1, fnode1) \<Rightarrow>
             Check_classify_loop fuel st1 arr1 (Sector + 1) SecHeader1 fnode1))"

text \<open>
  Second pass, the body of the loop: a sector that is neither in a chain, nor a file node,
  nor free. \<open>fixed\<close> is \<^verbatim>\<open>TotalFixedSectors\<close>.
\<close>

definition Check_reclaim ::
  "ffs \<Rightarrow> (nat \<Rightarrow> byte) \<Rightarrow> ulong \<Rightarrow> FFS_SECTOR_HEADER option \<Rightarrow> int
     \<Rightarrow> fault + (ffs \<times> FFS_SECTOR_HEADER option \<times> int)" where
  "Check_reclaim st arr Sector SecHeader fixed =
     (if arr (unat Sector) AND CHECK_SECTOR_INUSE = 0
         \<and> arr (unat Sector) AND CHECK_SECTOR_FNODE = 0
         \<and> arr (unat Sector) AND CHECK_SECTOR_FREE = 0
      then
        (if arr (unat Sector) AND CHECK_SECTOR_BAD = 0
         then
           (case read_into SecHeader header_of (ReadSector st Sector 0 SIZEOF_SECTOR_HEADER) of
              None \<Rightarrow> Inl UninitialisedRead
            | Some h \<Rightarrow>
                (let h' = h\<lparr>Status := FFS_SECTOR_HEADER_FREE_DIRTY\<rparr>
                 in Inr (snd (WriteSector st StatusMark Sector 0 (header_bytes h')),
                         Some h', fixed + 1)))
         else Inr (snd (EraseSector st Sector), SecHeader, fixed + 1))
      else Inr (st, SecHeader, fixed))"

primrec Check_reclaim_loop ::
  "nat \<Rightarrow> ffs \<Rightarrow> (nat \<Rightarrow> byte) \<Rightarrow> ulong \<Rightarrow> FFS_SECTOR_HEADER option \<Rightarrow> int
     \<Rightarrow> fault + (ffs \<times> FFS_SECTOR_HEADER option \<times> int)" where
  "Check_reclaim_loop 0 st arr Sector SecHeader fixed = Inl OutOfFuel"
| "Check_reclaim_loop (Suc fuel) st arr Sector SecHeader fixed =
     (if \<not> Sector < TotalSectors st then Inr (st, SecHeader, fixed)
      else
        (case Check_reclaim st arr Sector SecHeader fixed of
           Inl e \<Rightarrow> Inl e
         | Inr (st1, SecHeader1, fixed1) \<Rightarrow>
             Check_reclaim_loop fuel st1 arr (Sector + 1) SecHeader1 fixed1))"

text \<open>
  Third pass, the loop that frees the chain from \<^verbatim>\<open>DeleteSector\<close> on. It assigns the
  variable \<^verbatim>\<open>NextSector\<close> of the enclosing \<^verbatim>\<open>for\<close> loop, whose value at the end is
  the third component of the result.
\<close>

primrec Check_delete_loop ::
  "nat \<Rightarrow> ffs \<Rightarrow> ulong \<Rightarrow> ulong \<Rightarrow> FFS_SECTOR_HEADER \<Rightarrow> int
     \<Rightarrow> fault + (ffs \<times> FFS_SECTOR_HEADER \<times> ulong \<times> int)" where
  "Check_delete_loop 0 st DeleteSector NextSector SecHeader fixed = Inl OutOfFuel"
| "Check_delete_loop (Suc fuel) st DeleteSector NextSector SecHeader fixed =
     (if DeleteSector = NO_SECTOR then Inr (st, SecHeader, NextSector, fixed)
      else
        (let h = read_over SecHeader header_of (ReadSector st DeleteSector 0 SIZEOF_SECTOR_HEADER);
             h' = h\<lparr>Status := FFS_SECTOR_HEADER_FREE_DIRTY\<rparr>;
             st1 = snd (WriteSector st StatusMark DeleteSector OFFSET_OF_VERSION (version_word h'))
         in Check_delete_loop fuel st1 (Next h) (Next h) h' (fixed + 1)))"

text \<open>\<^verbatim>\<open>StringToUpperCase\<close> on a name held in an array.\<close>

definition upper_in_place :: "byte list \<Rightarrow> byte list" where
  "upper_in_place arr = StringToUpperCase (cstr arr) @ drop (length (cstr arr)) arr"

text \<open>
  Third pass, the body of the inner \<^verbatim>\<open>for\<close> loop. \<open>f\<close> is \<^verbatim>\<open>Fnode\<close>, \<open>nf\<close> is
  \<^verbatim>\<open>NextFnode\<close>. The first component of the result says whether the body ends in
  \<^verbatim>\<open>break\<close>; the \<^verbatim>\<open>NextSector\<close> of the result is the value before
  \<^verbatim>\<open>NextSector++\<close>.
\<close>

definition Check_compare ::
  "nat \<Rightarrow> ffs \<Rightarrow> ulong \<Rightarrow> ulong \<Rightarrow> FFS_SECTOR_HEADER \<Rightarrow> FFS_FILE_NODE \<Rightarrow> FFS_FILE_NODE option \<Rightarrow> int
     \<Rightarrow> fault + (bool \<times> ffs \<times> ulong \<times> FFS_SECTOR_HEADER \<times> FFS_FILE_NODE \<times> FFS_FILE_NODE option \<times> int)" where
  "Check_compare fuel st Sector NextSector SecHeader f nf fixed =
     (let h = read_over SecHeader header_of (ReadSector st NextSector 0 SIZEOF_SECTOR_HEADER) in
      if Status h = FFS_SECTOR_HEADER_INUSE_FILENODE then
        (case read_into nf fnode_of (ReadSector st NextSector SIZEOF_SECTOR_HEADER SIZEOF_FILE_NODE) of
           None \<Rightarrow> Inl UninitialisedRead
         | Some nf0 \<Rightarrow>
             if FFS_MAX_FILENAME_LENGTH < length (cstr (Filename f))
                \<or> FFS_MAX_FILENAME_LENGTH < length (cstr (Filename nf0))
             then Inl StringOverrun
             else
               (let f1 = f\<lparr>Filename := upper_in_place (Filename f)\<rparr>;
                    nf1 = nf0\<lparr>Filename := upper_in_place (Filename nf0)\<rparr>
                in
                if cstr (Filename f1) = cstr (Filename nf1) then
                  (let DeleteSector = (if Count f1 < Count nf1 then Sector else NextSector) in
                   case Check_delete_loop fuel st DeleteSector NextSector h fixed of
                     Inl e \<Rightarrow> Inl e
                   | Inr (st1, h1, NextSector1, fixed1) \<Rightarrow>
                       Inr (Count f1 < Count nf1, st1, NextSector1, h1, f1, Some nf1, fixed1))
                else Inr (False, st, NextSector, h, f1, Some nf1, fixed)))
      else Inr (False, st, NextSector, h, f, nf, fixed))"

primrec Check_compare_loop ::
  "nat \<Rightarrow> ffs \<Rightarrow> ulong \<Rightarrow> ulong \<Rightarrow> FFS_SECTOR_HEADER \<Rightarrow> FFS_FILE_NODE \<Rightarrow> FFS_FILE_NODE option \<Rightarrow> int
     \<Rightarrow> fault + (ffs \<times> FFS_SECTOR_HEADER \<times> FFS_FILE_NODE \<times> FFS_FILE_NODE option \<times> int)" where
  "Check_compare_loop 0 st Sector NextSector SecHeader f nf fixed = Inl OutOfFuel"
| "Check_compare_loop (Suc fuel) st Sector NextSector SecHeader f nf fixed =
     (if \<not> NextSector < TotalSectors st then Inr (st, SecHeader, f, nf, fixed)
      else
        (case Check_compare fuel st Sector NextSector SecHeader f nf fixed of
           Inl e \<Rightarrow> Inl e
         | Inr (brk, st1, NextSector1, h1, f1, nf1, fixed1) \<Rightarrow>
             if brk then Inr (st1, h1, f1, nf1, fixed1)
             else Check_compare_loop fuel st1 Sector (NextSector1 + 1) h1 f1 nf1 fixed1))"

text \<open>Third pass, the body of the outer loop.\<close>

definition Check_duplicates ::
  "nat \<Rightarrow> ffs \<Rightarrow> ulong \<Rightarrow> FFS_SECTOR_HEADER option \<Rightarrow> FFS_FILE_NODE option \<Rightarrow> FFS_FILE_NODE option \<Rightarrow> int
     \<Rightarrow> fault + (ffs \<times> FFS_SECTOR_HEADER option \<times> FFS_FILE_NODE option \<times> FFS_FILE_NODE option \<times> int)" where
  "Check_duplicates fuel st Sector SecHeader fnode nf fixed =
     (case read_into SecHeader header_of (ReadSector st Sector 0 SIZEOF_SECTOR_HEADER) of
        None \<Rightarrow> Inl UninitialisedRead
      | Some h \<Rightarrow>
          if Status h = FFS_SECTOR_HEADER_INUSE_FILENODE then
            (case read_into fnode fnode_of
                    (ReadSector st Sector SIZEOF_SECTOR_HEADER SIZEOF_FILE_NODE) of
               None \<Rightarrow> Inl UninitialisedRead
             | Some f \<Rightarrow>
                 (case Check_compare_loop fuel st Sector (Sector + 1) h f nf fixed of
                    Inl e \<Rightarrow> Inl e
                  | Inr (st1, h1, f1, nf1, fixed1) \<Rightarrow> Inr (st1, Some h1, Some f1, nf1, fixed1)))
          else Inr (st, Some h, fnode, nf, fixed))"

primrec Check_duplicates_loop ::
  "nat \<Rightarrow> ffs \<Rightarrow> ulong \<Rightarrow> FFS_SECTOR_HEADER option \<Rightarrow> FFS_FILE_NODE option \<Rightarrow> FFS_FILE_NODE option \<Rightarrow> int
     \<Rightarrow> fault + (ffs \<times> int)" where
  "Check_duplicates_loop 0 st Sector SecHeader fnode nf fixed = Inl OutOfFuel"
| "Check_duplicates_loop (Suc fuel) st Sector SecHeader fnode nf fixed =
     (if \<not> Sector < TotalSectors st then Inr (st, fixed)
      else
        (case Check_duplicates fuel st Sector SecHeader fnode nf fixed of
           Inl e \<Rightarrow> Inl e
         | Inr (st1, SecHeader1, fnode1, nf1, fixed1) \<Rightarrow>
             Check_duplicates_loop fuel st1 (Sector + 1) SecHeader1 fnode1 nf1 fixed1))"

text \<open>\<^verbatim>\<open>Check\<close>: the state and the count of sectors fixed.\<close>

definition FFSCheck :: "nat \<Rightarrow> ffs \<Rightarrow> fault + (ffs \<times> int)" where
  "FFSCheck fuel st0 =
     (let st = (Initialize st0)\<lparr>TotalCrossChain := 0, ErrorSectorCount := 0\<rparr>;
          st1 = st\<lparr>TotalSectors := TotalSectors_loop (FlashSectionTable st) 0\<rparr>
      in
      case Check_classify_loop fuel st1 (\<lambda>i. 0) 0 None None of
        Inl e \<Rightarrow> Inl e
      | Inr (st2, arr, SecHeader, fnode) \<Rightarrow>
          (case Check_reclaim_loop fuel st2 arr 0 SecHeader 0 of
             Inl e \<Rightarrow> Inl e
           | Inr (st3, SecHeader1, fixed) \<Rightarrow>
               Check_duplicates_loop fuel st3 0 SecHeader1 fnode None fixed))"

section \<open>Volumes used in the concrete runs\<close>

text \<open>
  An engine that has just been started on the section table \<open>tbl\<close> and the flash content
  \<open>m\<close>: no descriptor is in use. A fresh volume is erased flash.
\<close>

definition mount :: "FFS_FLASH_SECTION list \<Rightarrow> (nat \<times> ulong \<Rightarrow> nat \<Rightarrow> byte) \<Rightarrow> ffs" where
  "mount tbl m =
     \<lparr>FlashSectionTable = tbl, media = m, journal = [], initializationComplete = False,
      FileDescriptors = (\<lambda>fd. zero_descriptor), ErrorSectorCount = 0, TotalSectors = 0,
      TotalCrossChain = 0\<rparr>"

definition fresh_volume :: "FFS_FLASH_SECTION list \<Rightarrow> ffs" where
  "fresh_volume tbl = mount tbl (\<lambda>p. erased)"

definition section_of :: "ulong \<Rightarrow> ulong \<Rightarrow> FFS_FLASH_SECTION" where
  "section_of cnt sz = \<lparr>Device = 0, Start = 0, Count = cnt, SectorSize = sz\<rparr>"

definition end_of_table :: FFS_FLASH_SECTION where
  "end_of_table = \<lparr>Device = 0xff, Start = 0, Count = 0, SectorSize = 0\<rparr>"

text \<open>Four sectors of 128 bytes: 24 bytes of payload in a head sector, 104 in the others.\<close>

definition small_table :: "FFS_FLASH_SECTION list" where
  "small_table = [section_of 4 128, end_of_table]"

text \<open>The file names \<^verbatim>\<open>"a"\<close>, \<^verbatim>\<open>"A"\<close> and \<^verbatim>\<open>"b"\<close>, and the bytes of \<^verbatim>\<open>"hello"\<close>.\<close>

definition name_a :: "byte list" where "name_a = [0x61]"
definition name_A :: "byte list" where "name_A = [0x41]"
definition name_b :: "byte list" where "name_b = [0x62]"
definition hello :: "byte list" where "hello = [0x68, 0x65, 0x6c, 0x6c, 0x6f]"

text \<open>The content of a head sector with header \<open>h\<close> and file node \<open>f\<close>, no data written.\<close>

definition head_sector :: "FFS_SECTOR_HEADER \<Rightarrow> FFS_FILE_NODE \<Rightarrow> nat \<Rightarrow> byte" where
  "head_sector h f =
     nor_write (nor_write erased 0 (header_bytes h)) (unat SIZEOF_SECTOR_HEADER) (fnode_bytes f)"

text \<open>
  The fresh volume of four sectors after \<^verbatim>\<open>open("a", FFS_CREATE, 0)\<close>, a write of
  \<^verbatim>\<open>"hello"\<close> and \<^verbatim>\<open>close\<close>: the return code of \<^verbatim>\<open>close\<close> and the state.
\<close>

definition created_a :: "fault + (int \<times> ffs)" where
  "created_a =
     (case FFSOpen 10 (fresh_volume small_table) name_a FFS_CREATE 0 of
        Inl e \<Rightarrow> Inl e
      | Inr (fd, st1) \<Rightarrow>
          (case FFSWrite 10 st1 fd hello 5 of
             Inl e \<Rightarrow> Inl e
           | Inr (rc, st2) \<Rightarrow> FFSClose 10 st2 fd))"

text \<open>
  The header that \<^verbatim>\<open>AllocateSectorWithFilenode\<close> writes to a sector of 128 bytes that
  has been erased once, and a file node for the name \<^verbatim>\<open>"a"\<close> with 5 bytes and count \<open>c\<close>.
\<close>

definition head_header :: FFS_SECTOR_HEADER where
  "head_header =
     \<lparr>Key = FFS_SECTOR_HEADER_KEY, Next = NO_SECTOR, EraseCount = 0,
      Version = FFS_FILE_SYSTEM_VERSION, Status = FFS_SECTOR_HEADER_INUSE_FILENODE,
      SectorChecksum = 0xffff, SectorLength = 128,
      DataOffset = SIZEOF_SECTOR_HEADER + SIZEOF_FILE_NODE\<rparr>"

definition fnode_a :: "ulong \<Rightarrow> FFS_FILE_NODE" where
  "fnode_a c =
     zero_fnode\<lparr>Filename := strcpy (replicate 65 0) name_a, FileSize := 5, Count := c\<rparr>"

text \<open>
  Two files named \<^verbatim>\<open>"a"\<close> on the volume of four sectors: in sector 0 with count 1, in
  sector 1 with count 0. This is what is on the flash when the power fails in
  \<^verbatim>\<open>close\<close> between the write of the new file node and \<^verbatim>\<open>FreeSectors\<close> for the old
  file, the new file having been allocated the lower sector.
\<close>

definition two_files :: ffs where
  "two_files =
     mount small_table
       ((\<lambda>p. erased)((0, 0) := head_sector head_header (fnode_a 1),
                       (0, 1) := head_sector head_header (fnode_a 0)))"

text \<open>One file of two sectors: the head in sector 0, chained to sector 1.\<close>

definition linked_file :: ffs where
  "linked_file =
     mount small_table
       ((\<lambda>p. erased)
          ((0, 0) := head_sector (head_header\<lparr>Next := 1\<rparr>) (fnode_a 0),
           (0, 1) := nor_write erased 0
                       (header_bytes (head_header\<lparr>Status := FFS_SECTOR_HEADER_INUSE,
                                                  DataOffset := SIZEOF_SECTOR_HEADER\<rparr>))))"

text \<open>
  The fresh volume of four sectors after \<^verbatim>\<open>open("a", FFS_CREATE, 0)\<close>: descriptor 0 is
  in use, the file has no sector yet.
\<close>

definition opened_a :: ffs where
  "opened_a =
     set_descriptor ((fresh_volume small_table)\<lparr>initializationComplete := True\<rparr>) 0
       (zero_descriptor\<lparr>InUse := 1, FnodeSector := NO_SECTOR,
          Fnode := zero_fnode\<lparr>Filename := strcpy (replicate 65 0) name_a\<rparr>\<rparr>)"

text \<open>
  The volume of four sectors with the file \<^verbatim>\<open>"a"\<close> that holds \<^verbatim>\<open>"hello"\<close> in
  its head sector, no descriptor in use.
\<close>

definition hello_file :: ffs where
  "hello_file =
     mount small_table
       ((\<lambda>p. erased)((0, 0) := nor_write (head_sector head_header (fnode_a 0)) 104 hello))"

section \<open>Sector geometry and new sectors\<close>

text \<open>
  Every section of the table has sectors that hold at least a sector header and a file
  node.
\<close>

definition sectors_fit :: "FFS_FLASH_SECTION list \<Rightarrow> bool" where
  "sectors_fit tbl =
     list_all (\<lambda>s. Device s = 0xff
                     \<or> unat (SIZEOF_SECTOR_HEADER + SIZEOF_FILE_NODE) \<le> unat (SectorSize s)) tbl"

text \<open>
  The header that \<^verbatim>\<open>AllocateSector\<close> and \<^verbatim>\<open>AllocateSectorWithFilenode\<close> build for
  a sector whose old header counts \<open>erases\<close> erasures, and the state after the erase
  and the write of that header to sector \<open>N\<close>, which is at \<open>p\<close> on the flash.
\<close>

definition fresh_header :: "byte \<Rightarrow> ulong \<Rightarrow> ulong \<Rightarrow> ulong \<Rightarrow> FFS_SECTOR_HEADER" where
  "fresh_header status off erases sz =
     \<lparr>Key = FFS_SECTOR_HEADER_KEY, Next = NO_SECTOR, EraseCount = erases + 1,
      Version = FFS_FILE_SYSTEM_VERSION, Status = status, SectorChecksum = 0xffff,
      SectorLength = sz, DataOffset = off\<rparr>"

definition allocated :: "ffs \<Rightarrow> ulong \<Rightarrow> nat \<times> ulong \<Rightarrow> FFS_SECTOR_HEADER \<Rightarrow> ffs" where
  "allocated st N p h =
     st\<lparr>media := (media st)(p := nor_write erased 0 (header_bytes h)),
        journal := journal st @ [OpErase N, OpWrite HeaderImage N 0 (header_bytes h)]\<rparr>"

section \<open>The order of the flash operations of a write\<close>

text \<open>
  Two readings of a list of flash operations, oldest first.

  \<open>filled_then_chained\<close>: a write to a \<^verbatim>\<open>Next\<close> field stores the number of a sector
  whose header has been written since its last erase (\<open>hdrs\<close>), and no data is written
  to a sector once a \<^verbatim>\<open>Next\<close> field points at it (\<open>linked\<close>): the data of a new
  sector comes before the link.
\<close>

fun filled_then_chained :: "ulong list \<Rightarrow> ulong list \<Rightarrow> flash_op list \<Rightarrow> bool" where
  "filled_then_chained hdrs linked [] = True"
| "filled_then_chained hdrs linked (OpErase s # ops) =
     filled_then_chained (removeAll s hdrs) (removeAll s linked) ops"
| "filled_then_chained hdrs linked (OpWrite HeaderImage s off img # ops) =
     filled_then_chained (s # hdrs) linked ops"
| "filled_then_chained hdrs linked (OpWrite NextLink p off img # ops) =
     ((\<exists>s \<in> set hdrs. img = le32 s)
      \<and> filled_then_chained hdrs (filter (\<lambda>s. img = le32 s) hdrs @ linked) ops)"
| "filled_then_chained hdrs linked (OpWrite FileData s off img # ops) =
     (s \<notin> set linked \<and> filled_then_chained hdrs linked ops)"
| "filled_then_chained hdrs linked (OpWrite why s off img # ops) =
     filled_then_chained hdrs linked ops"

text \<open>
  \<open>chained_then_filled\<close> follows the sector that the write works in, \<open>cur\<close>: the sector
  that holds the cursor when the write starts, or the head sector once its header is
  written. A header is written whole, at offset 0, with the key of the file system.
  \<open>pend\<close> are the new sectors without a file node whose header has been written
  and that no \<^verbatim>\<open>Next\<close> field points at yet. A link is a write of the four bytes of the
  number of such a sector to the \<^verbatim>\<open>Next\<close> field, at offset \<open>OFFSET_OF_NEXT\<close>, of
  the sector \<open>cur\<close>, its predecessor; with the link the new sector becomes \<open>cur\<close>. Data is
  written to \<open>cur\<close> only, and never to a sector of \<open>pend\<close>: the data of a new sector
  comes after the link.
\<close>

fun chained_then_filled ::
  "ulong option \<Rightarrow> ulong list \<Rightarrow> ulong list \<Rightarrow> flash_op list \<Rightarrow> bool" where
  "chained_then_filled cur hdrs pend [] = True"
| "chained_then_filled cur hdrs pend (OpErase s # ops) =
     chained_then_filled cur (removeAll s hdrs) (removeAll s pend) ops"
| "chained_then_filled cur hdrs pend (OpWrite HeaderImage s off img # ops) =
     (off = 0 \<and> length img = unat SIZEOF_SECTOR_HEADER
      \<and> Key (header_of img) = FFS_SECTOR_HEADER_KEY
      \<and> (if Status (header_of img) = FFS_SECTOR_HEADER_INUSE
           then chained_then_filled cur (s # hdrs) (s # pend) ops
           else chained_then_filled (Some s) (s # hdrs) pend ops))"
| "chained_then_filled cur hdrs pend (OpWrite NextLink p off img # ops) =
     (case find (\<lambda>s. img = le32 s) pend of
        None \<Rightarrow> False
      | Some s \<Rightarrow>
          cur = Some p \<and> off = OFFSET_OF_NEXT \<and> s \<in> set hdrs
          \<and> chained_then_filled (Some s) hdrs (removeAll s pend) ops)"
| "chained_then_filled cur hdrs pend (OpWrite FileData s off img # ops) =
     (cur = Some s \<and> s \<notin> set pend \<and> chained_then_filled cur hdrs pend ops)"
| "chained_then_filled cur hdrs pend (OpWrite why s off img # ops) =
     chained_then_filled cur hdrs pend ops"

text \<open>
  The sector in which \<^verbatim>\<open>write\<close> starts: the one that \<^verbatim>\<open>LocatePosition\<close> finds for
  the cursor. A file without sectors has none; \<^verbatim>\<open>write\<close> allocates its head sector.
\<close>

definition write_start :: "nat \<Rightarrow> ffs \<Rightarrow> int \<Rightarrow> ulong option" where
  "write_start fuel st fd =
     (let Fdesc = FileDescriptors st (nat fd) in
      if FnodeSector Fdesc = NO_SECTOR then None
      else
        (case LocatePosition fuel st Fdesc (Position Fdesc) of
           Inl e \<Rightarrow> None
         | Inr (rc, None) \<Rightarrow> None
         | Inr (rc, Some (Sector, SecHead, Offset)) \<Rightarrow> Some Sector))"

section \<open>Reading the flash and the journal\<close>

text \<open>The \<open>len\<close> bytes of a sector from offset \<open>off\<close> on.\<close>

definition window :: "(nat \<Rightarrow> byte) \<Rightarrow> nat \<Rightarrow> nat \<Rightarrow> byte list" where
  "window m off len = map m [off ..< off + len]"

text \<open>
  The file nodes that a list of flash operations writes, oldest first, each with the
  sector it is written to.
\<close>

fun fnode_writes :: "flash_op list \<Rightarrow> (ulong \<times> FFS_FILE_NODE) list" where
  "fnode_writes [] = []"
| "fnode_writes (OpWrite FnodeImage s off img # ops) = (s, fnode_of img) # fnode_writes ops"
| "fnode_writes (op # ops) = fnode_writes ops"

section \<open>Files on the flash\<close>

text \<open>The sector header and the file node that the flash holds at \<open>p\<close>.\<close>

definition header_at :: "ffs \<Rightarrow> nat \<times> ulong \<Rightarrow> FFS_SECTOR_HEADER" where
  "header_at st p = header_of (window (media st p) 0 24)"

definition fnode_at :: "ffs \<Rightarrow> nat \<times> ulong \<Rightarrow> FFS_FILE_NODE" where
  "fnode_at st p = fnode_of (window (media st p) 24 80)"

text \<open>The test of \<^verbatim>\<open>FindFreeSector\<close> for a sector that it passes over.\<close>

definition inuse :: "FFS_SECTOR_HEADER \<Rightarrow> bool" where
  "inuse h = (Key h = FFS_SECTOR_HEADER_KEY \<and> Status h \<noteq> FFS_SECTOR_HEADER_FREE
              \<and> Status h \<noteq> FFS_SECTOR_HEADER_FREE_DIRTY)"

text \<open>
  The chain from \<open>T\<close> on has at most \<open>k\<close> sectors, each with the key of the file
  system and the status \<^verbatim>\<open>INUSE\<close>, and ends with \<^verbatim>\<open>0xFFFFFFFF\<close>.
\<close>

primrec chain_inuse :: "nat \<Rightarrow> ffs \<Rightarrow> ulong \<Rightarrow> bool" where
  "chain_inuse 0 st T = (T = NO_SECTOR)"
| "chain_inuse (Suc k) st T =
     (T = NO_SECTOR \<or>
      (case GetFlashSectionEntry st T of
         None \<Rightarrow> False
       | Some p \<Rightarrow> Key (header_at st p) = FFS_SECTOR_HEADER_KEY
                   \<and> Status (header_at st p) = FFS_SECTOR_HEADER_INUSE
                   \<and> chain_inuse k st (Next (header_at st p))))"

text \<open>
  A file with its head in sector \<open>S\<close>, as \<^verbatim>\<open>AllocateSectorWithFilenode\<close> and
  \<^verbatim>\<open>write\<close> leave it: the head sector has the key, the status
  \<^verbatim>\<open>INUSE_FILENODE\<close>, the data offset behind the file node and the length of its
  sector; the rest of the chain is in use.
\<close>

definition file_wf :: "nat \<Rightarrow> ffs \<Rightarrow> ulong \<Rightarrow> bool" where
  "file_wf k st S =
     (case GetFlashSectionEntry st S of
        None \<Rightarrow> False
      | Some p \<Rightarrow> Key (header_at st p) = FFS_SECTOR_HEADER_KEY
                  \<and> Status (header_at st p) = FFS_SECTOR_HEADER_INUSE_FILENODE
                  \<and> DataOffset (header_at st p) = SIZEOF_SECTOR_HEADER + SIZEOF_FILE_NODE
                  \<and> SectorLength (header_at st p) = SectorSize (FlashSectionTable st ! fst p)
                  \<and> chain_inuse k st (Next (header_at st p)))"

text \<open>
  The name of the file whose head is sector \<open>T\<close>, in upper case as
  \<^verbatim>\<open>LocateFileNode\<close> compares it.
\<close>

definition name_at :: "ffs \<Rightarrow> ulong \<Rightarrow> byte list option" where
  "name_at st T =
     (case GetFlashSectionEntry st T of
        None \<Rightarrow> None
      | Some p \<Rightarrow> if Status (header_at st p) = FFS_SECTOR_HEADER_INUSE_FILENODE
                  then Some (StringToUpperCase (cstr (Filename (fnode_at st p)))) else None)"

text \<open>
  The calls \<^verbatim>\<open>fd = open(name, FFS_RDONLY, 0); read(fd, buf, n)\<close>: the return code of
  \<^verbatim>\<open>read\<close> and the caller's buffer, or the code of \<^verbatim>\<open>open\<close> when it fails.
\<close>

definition read_result :: "fault + (int \<times> ffs \<times> byte list) \<Rightarrow> fault + (int \<times> byte list)" where
  "read_result r = (case r of Inl e \<Rightarrow> Inl e | Inr (rc, st, out) \<Rightarrow> Inr (rc, out))"

definition open_read :: "nat \<Rightarrow> ffs \<Rightarrow> byte list \<Rightarrow> byte list \<Rightarrow> int \<Rightarrow> fault + (int \<times> byte list)" where
  "open_read fuel st name buf n =
     (case FFSOpen fuel st name FFS_RDONLY 0 of
        Inl e \<Rightarrow> Inl e
      | Inr (fd, st1) \<Rightarrow>
          if fd < 0 then Inr (fd, buf)
          else read_result (FFSRead fuel st1 fd buf n))"

section \<open>A file written to a fresh volume\<close>

text \<open>
  The calls \<^verbatim>\<open>write(fd, b, length of b)\<close> for the buffers \<open>b\<close> of \<open>bufs\<close>, in order:
  the state after them when every call returns the length of its buffer, \<open>None\<close> when
  one of them returns something else.
\<close>

primrec write_all :: "nat \<Rightarrow> ffs \<Rightarrow> int \<Rightarrow> byte list list \<Rightarrow> fault + ffs option" where
  "write_all fuel st fd [] = Inr (Some st)"
| "write_all fuel st fd (b # bs) =
     (case FFSWrite fuel st fd b (int (length b)) of
        Inl e \<Rightarrow> Inl e
      | Inr (rc, st1) \<Rightarrow> if rc = int (length b) then write_all fuel st1 fd bs else Inr None)"

text \<open>
  The calls \<^verbatim>\<open>fd = open(name, flags, perm)\<close>, the writes of \<open>bufs\<close> and
  \<^verbatim>\<open>close(fd)\<close>: the state after them when \<^verbatim>\<open>open\<close> returns a descriptor, the
  writes return the lengths of their buffers and \<^verbatim>\<open>close\<close> returns 0.
\<close>

definition store_file ::
  "nat \<Rightarrow> ffs \<Rightarrow> byte list \<Rightarrow> int \<Rightarrow> int \<Rightarrow> byte list list \<Rightarrow> fault + ffs option" where
  "store_file fuel st name flags perm bufs =
     (case FFSOpen fuel st name flags perm of
        Inl e \<Rightarrow> Inl e
      | Inr (fd, st1) \<Rightarrow>
          if fd < 0 then Inr None
          else
            (case write_all fuel st1 fd bufs of
               Inl e \<Rightarrow> Inl e
             | Inr None \<Rightarrow> Inr None
             | Inr (Some st2) \<Rightarrow>
                 (case FFSClose fuel st2 fd of
                    Inl e \<Rightarrow> Inl e
                  | Inr (rc, st3) \<Rightarrow> if rc = 0 then Inr (Some st3) else Inr None)))"

text \<open>
  What the flash holds while the first file of a fresh volume is written. The file takes
  the sectors 0, 1, 2, ... in this order. Sector \<open>j\<close> of the file has its data from
  offset \<open>dataoff j\<close> on, behind the header and, in the head sector, the file node;
  \<open>sector_size tbl j\<close> is the size of that sector, \<open>payload_size tbl j\<close> the number of
  data bytes it takes and \<open>payload_start tbl j\<close> the position in the file of its first data
  byte.
\<close>

definition dataoff :: "nat \<Rightarrow> nat" where
  "dataoff j = (if j = 0 then 104 else 24)"

definition sector_size :: "FFS_FLASH_SECTION list \<Rightarrow> nat \<Rightarrow> nat" where
  "sector_size tbl j =
     (case GetFlashSectionEntry_loop tbl 0 (of_nat j) of
        None \<Rightarrow> 0
      | Some p \<Rightarrow> unat (SectorSize (tbl ! fst p)))"

definition payload_size :: "FFS_FLASH_SECTION list \<Rightarrow> nat \<Rightarrow> nat" where
  "payload_size tbl j = sector_size tbl j - dataoff j"

primrec payload_start :: "FFS_FLASH_SECTION list \<Rightarrow> nat \<Rightarrow> nat" where
  "payload_start tbl 0 = 0"
| "payload_start tbl (Suc j) = payload_start tbl j + payload_size tbl j"

text \<open>
  The header of sector \<open>j\<close> of a file of \<open>m\<close> sectors: the header that allocation
  writes to a sector of erased flash, with \<^verbatim>\<open>Next\<close> patched to the following sector
  when there is one.
\<close>

definition chain_header :: "FFS_FLASH_SECTION list \<Rightarrow> nat \<Rightarrow> nat \<Rightarrow> FFS_SECTOR_HEADER" where
  "chain_header tbl m j =
     (fresh_header (if j = 0 then FFS_SECTOR_HEADER_INUSE_FILENODE else FFS_SECTOR_HEADER_INUSE)
        (of_nat (dataoff j)) 0xFFFFFFFF (of_nat (sector_size tbl j)))
     \<lparr>Next := (if Suc j < m then of_nat (Suc j) else NO_SECTOR)\<rparr>"

text \<open>
  The content of sector \<open>j\<close> of a file of \<open>m\<close> sectors that holds the bytes \<open>D\<close>:
  the header, in the head sector the 80 bytes \<open>fn\<close> of the file node area, the bytes of
  \<open>D\<close> that fall into the sector, and \<open>0xFF\<close> elsewhere.
\<close>

definition sector_image ::
  "FFS_FLASH_SECTION list \<Rightarrow> byte list \<Rightarrow> byte list \<Rightarrow> nat \<Rightarrow> nat \<Rightarrow> nat \<Rightarrow> byte" where
  "sector_image tbl fn D m j i =
     (if i < 24 then header_bytes (chain_header tbl m j) ! i
      else if j = 0 \<and> i < 104 then fn ! (i - 24)
      else if i < sector_size tbl j \<and> payload_start tbl j + (i - dataoff j) < length D
           then D ! (payload_start tbl j + (i - dataoff j))
           else 0xFF)"

text \<open>
  \<open>stored st fn D m V\<close>: \<open>V\<close> is the first sector number that is not valid, where the
  scans of \<^verbatim>\<open>LocateFileNode\<close> and \<^verbatim>\<open>FindFreeSector\<close> end; the sectors
  \<open>0, ..., m - 1\<close> hold the file with the bytes \<open>D\<close>, every other sector is erased.
\<close>

definition stored :: "ffs \<Rightarrow> byte list \<Rightarrow> byte list \<Rightarrow> nat \<Rightarrow> ulong \<Rightarrow> bool" where
  "stored st fn D m V =
     (m \<le> unat V \<and> GetFlashSectionEntry st V = None
      \<and> (\<forall>S. S < V \<longrightarrow> ValidSector st S)
      \<and> (\<forall>S p. GetFlashSectionEntry st S = Some p \<longrightarrow>
             media st p = (if unat S < m then sector_image (FlashSectionTable st) fn D m (unat S)
                           else erased)))"

text \<open>The descriptor \<open>dsc\<close> with the cursor and the file size at \<open>k\<close> bytes.\<close>

definition at_pos :: "FFS_FILE_DESCRIPTOR \<Rightarrow> nat \<Rightarrow> FFS_FILE_DESCRIPTOR" where
  "at_pos dsc k = dsc\<lparr>Position := of_nat k, Fnode := (Fnode dsc)\<lparr>FileSize := of_nat k\<rparr>\<rparr>"

section \<open>Well-formed chains\<close>

text \<open>
  The chain that starts at \<open>Sector\<close> has at most \<open>k\<close> sectors, the header of each can
  be read, and the last one has \<^verbatim>\<open>Next == 0xFFFFFFFF\<close>.
\<close>

primrec chain_wf :: "nat \<Rightarrow> ffs \<Rightarrow> ulong \<Rightarrow> bool" where
  "chain_wf 0 st Sector = (Sector = NO_SECTOR)"
| "chain_wf (Suc k) st Sector =
     (Sector = NO_SECTOR \<or>
      (case snd (ReadSector st Sector 0 SIZEOF_SECTOR_HEADER) of
         None \<Rightarrow> False
       | Some bs \<Rightarrow> chain_wf k st (Next (header_of bs))))"

text \<open>The same, and every sector of the chain has the status \<^verbatim>\<open>FREE_DIRTY\<close>.\<close>

primrec chain_freed :: "nat \<Rightarrow> ffs \<Rightarrow> ulong \<Rightarrow> bool" where
  "chain_freed 0 st Sector = (Sector = NO_SECTOR)"
| "chain_freed (Suc k) st Sector =
     (Sector = NO_SECTOR \<or>
      (case snd (ReadSector st Sector 0 SIZEOF_SECTOR_HEADER) of
         None \<Rightarrow> False
       | Some bs \<Rightarrow> Status (header_of bs) = FFS_SECTOR_HEADER_FREE_DIRTY
                    \<and> chain_freed k st (Next (header_of bs))))"

section \<open>Facts about the byte images\<close>

lemma rd32_le32:
  "rd32 (ucast w) (ucast (drop_bit 8 w)) (ucast (drop_bit 16 w)) (ucast (drop_bit 24 w)) = w"
  unfolding rd32_def
proof (rule bit_word_eqI)
  fix n :: nat
  assume "n < LENGTH(32)"
  then have n: "n < 32" by simp
  consider "n < 8" | "8 \<le> n" "n < 16" | "16 \<le> n" "n < 24" | "24 \<le> n"
    by linarith
  then show "bit (ucast (ucast w :: byte) OR push_bit 8 (ucast (ucast (drop_bit 8 w) :: byte)) OR
           push_bit 16 (ucast (ucast (drop_bit 16 w) :: byte)) OR
           push_bit 24 (ucast (ucast (drop_bit 24 w) :: byte)) :: ulong) n = bit w n"
    using n by cases (auto simp: bit_simps)
qed

lemma rd16_le16: "rd16 (ucast w) (ucast (drop_bit 8 w)) = w"
  unfolding rd16_def
proof (rule bit_word_eqI)
  fix n :: nat
  assume "n < LENGTH(16)"
  then have n: "n < 16" by simp
  consider "n < 8" | "8 \<le> n" by linarith
  then show "bit (ucast (ucast w :: byte) OR push_bit 8 (ucast (ucast (drop_bit 8 w) :: byte)) :: ushort) n
               = bit w n"
    using n by cases (auto simp: bit_simps)
qed

lemma length_le32 [simp]: "length (le32 w) = 4"
  by (simp add: le32_def)

lemma length_le16 [simp]: "length (le16 w) = 2"
  by (simp add: le16_def)

lemma length_header_bytes [simp]: "length (header_bytes h) = 24"
  by (simp add: header_bytes_def)

lemma length_fnode_bytes [simp]:
  "length (fnode_bytes f) = 9 + length (Filename f) + length (Padding f) + 4"
  by (simp add: fnode_bytes_def)

lemma header_of_header_bytes [simp]: "header_of (header_bytes h) = h"
  by (simp add: header_of_def header_bytes_def le32_def le16_def rd32_le32 rd16_le16)

lemma fnode_of_fnode_bytes:
  assumes "length (Filename f) = 65" "length (Padding f) = 2"
  shows "fnode_of (fnode_bytes f) = f"
proof -
  have a: "(Filename f @ Padding f @ le32 (FileSize f) @ le32 (DataTime f) @ le32 (Count f)) ! (65 + 2 + k)
             = (le32 (FileSize f) @ le32 (DataTime f) @ le32 (Count f)) ! k" for k
    using assms by (simp add: nth_append)
  have b: "fnode_bytes f ! (68 + k)
             = (le32 (FileSize f) @ le32 (DataTime f) @ le32 (Count f)) ! k" for k
    using a [of k] by (simp add: fnode_bytes_def)
  have c: "fnode_bytes f ! 68 = (le32 (FileSize f) @ le32 (DataTime f) @ le32 (Count f)) ! 0"
    using b [of 0] by simp
  show ?thesis
    using assms b [of 1] b [of 2] b [of 3] b [of 4] b [of 5] b [of 6] b [of 7] b [of 8]
      b [of 9] b [of 10] b [of 11] c
    by (simp add: fnode_of_def le32_def rd32_le32) (simp add: fnode_bytes_def)
qed

section \<open>Rules for running the model on concrete volumes\<close>

named_theorems ffs_eval

lemmas [ffs_eval] =
  LocateFileNode_loop.simps(2) [of "pred_numeral k" for k, folded numeral_eq_Suc]
  FindFreeSector_loop.simps(2) [of "pred_numeral k" for k, folded numeral_eq_Suc]
  FreeSectors_loop.simps(2) [of "pred_numeral k" for k, folded numeral_eq_Suc]
  LocatePosition_loop.simps(2) [of "pred_numeral k" for k, folded numeral_eq_Suc]
  read_loop.simps(2) [of "pred_numeral k" for k, folded numeral_eq_Suc]
  write_loop.simps(2) [of "pred_numeral k" for k, folded numeral_eq_Suc]
  GetDescriptor_loop.simps(2) [of "pred_numeral k" for k, folded numeral_eq_Suc]
  Check_chain_loop.simps(2) [of "pred_numeral k" for k, folded numeral_eq_Suc]
  Check_classify_loop.simps(2) [of "pred_numeral k" for k, folded numeral_eq_Suc]
  Check_reclaim_loop.simps(2) [of "pred_numeral k" for k, folded numeral_eq_Suc]
  Check_delete_loop.simps(2) [of "pred_numeral k" for k, folded numeral_eq_Suc]
  Check_compare_loop.simps(2) [of "pred_numeral k" for k, folded numeral_eq_Suc]
  Check_duplicates_loop.simps(2) [of "pred_numeral k" for k, folded numeral_eq_Suc]
  le16_def le32_def rd16_def rd32_def header_bytes_def header_of_def fnode_bytes_def fnode_of_def
  cstr_def toupper_def StringToUpperCase_def strcpy_def
  GetFlashSectionEntry_def ValidSector_def section_Read_def nor_write_def erased_def
  section_Write_def section_Erase_def ReadSector_def WriteSector_def EraseSector_def
  read_into_def read_over_def
  zero_fnode_def zero_descriptor_def set_descriptor_def GetDescriptor_def FreeDescriptor_def
  Initialize_def SanityCheck_def LocateFileNode_def FindFreeSector_def AllocateSector_def
  AllocateSectorWithFilenode_def version_word_def FreeSectors_def LocatePosition_def
  FFSOpen_def FFSClose_def advance_read_def advance_write_def store_def FFSRead_def FFSWrite_def
  Rename_copy_loop.simps FFSRename_def
  mark_def Check_classify_def Check_reclaim_def upper_in_place_def Check_compare_def
  Check_duplicates_def FFSCheck_def
  mount_def fresh_volume_def section_of_def end_of_table_def small_table_def
  name_a_def name_A_def name_b_def hello_def head_sector_def
  head_header_def fnode_a_def two_files_def linked_file_def
  chain_wf.simps(2) [of "pred_numeral k" for k, folded numeral_eq_Suc]
  chain_freed.simps(2) [of "pred_numeral k" for k, folded numeral_eq_Suc]
  Let_def nth_append

section \<open>The flash section registry (C4)\<close>

text \<open>
  C4. The claim: a global sector index that lies in the range of section \<open>k\<close> of the
  concatenated section table is mapped to section \<open>k\<close> and to the index less the counts of
  the sections before it, and an index past the last section makes \<^verbatim>\<open>ReadSector\<close>,
  \<^verbatim>\<open>WriteSector\<close> and \<^verbatim>\<open>EraseSector\<close> fail with \<^verbatim>\<open>FFS_RC_INVALID_SECTOR_NUMBER\<close>.
  The code steps to the next table entry before it subtracts a count, so it subtracts the
  count of the section it moves to. With sections of 2 and 3 sectors, index 2 (the first
  sector of the second section) is not found and a read of it fails, and index 3 is mapped
  to relative sector 0 instead of 1. With sections of 1 and 3 sectors, index 4, which is
  past the four sectors of the table, is mapped to sector 1 of the second section and a read
  of it succeeds.
\<close>

theorem C4_lookup_subtracts_count_of_next_section:
  "GetFlashSectionEntry (mount [section_of 2 128, section_of 3 128, end_of_table] m) 2 = None
   \<and> fst (ReadSector (mount [section_of 2 128, section_of 3 128, end_of_table] m) 2 0 24)
       = FFS_RC_INVALID_SECTOR_NUMBER
   \<and> GetFlashSectionEntry (mount [section_of 2 128, section_of 3 128, end_of_table] m) 3
       = Some (1, 0)
   \<and> GetFlashSectionEntry (mount [section_of 1 128, section_of 3 128, end_of_table] m) 4
       = Some (1, 1)
   \<and> fst (ReadSector (mount [section_of 1 128, section_of 3 128, end_of_table] m) 4 0 24) = 24"
  by (simp add: ffs_eval)

section \<open>The descriptor check (C8)\<close>

text \<open>
  C8. The claim: \<^verbatim>\<open>read\<close>, \<^verbatim>\<open>write\<close> and \<^verbatim>\<open>close\<close> return
  \<^verbatim>\<open>FFS_RC_INVALID_FILE_DESCRIPTOR\<close> for every descriptor that is not an index of an entry
  in use, the negative ones and \<^verbatim>\<open>FFS_MAX_FILE_DESCRIPTORS\<close> included, and never index the
  file table outside its bounds. The check of the code is
  \<^verbatim>\<open>fd > FFS_MAX_FILE_DESCRIPTORS || !FileDescriptors[fd].InUse\<close>: in every state, and
  whatever the other arguments are, the descriptors 2 and -1 pass the first test and the
  three operations index the table of two entries with them.
\<close>

theorem C8_descriptor_check_indexes_outside_table:
  "FFSClose fuel st 2 = Inl DescriptorTableOutOfBounds
   \<and> FFSRead fuel st 2 buf n = Inl DescriptorTableOutOfBounds
   \<and> FFSWrite fuel st 2 buf n = Inl DescriptorTableOutOfBounds
   \<and> FFSClose fuel st (- 1) = Inl DescriptorTableOutOfBounds
   \<and> FFSRead fuel st (- 1) buf n = Inl DescriptorTableOutOfBounds
   \<and> FFSWrite fuel st (- 1) buf n = Inl DescriptorTableOutOfBounds"
  by (simp add: FFSClose_def FFSRead_def FFSWrite_def SanityCheck_def)

section \<open>The create test of open (C2)\<close>

text \<open>
  C2. The claim: \<^verbatim>\<open>open\<close> takes the create branch exactly when the bit
  \<^verbatim>\<open>FFS_CREATE\<close> is set in the flags, so that \<^verbatim>\<open>open\<close> of an existing file with
  \<^verbatim>\<open>FFS_RDWR\<close> keeps the sector of the file node, the file size and the count, and plans
  no deletion. The test of the code is \<^verbatim>\<open>flags && FFS_CREATE\<close>. On the volume that holds
  the file \<^verbatim>\<open>"a"\<close> of 5 bytes, with its file node in sector 0 and count 0,
  \<^verbatim>\<open>open("a", FFS_RDWR, 0)\<close> returns descriptor 0 with no file node sector, file size 0,
  count 1, and the old file in sector 0 marked for deletion at \<^verbatim>\<open>close\<close>.
\<close>

theorem C2_open_rdwr_takes_create_branch:
  "(case created_a of
      Inl e \<Rightarrow> Inl e
    | Inr (rc, st) \<Rightarrow>
        (case LocateFileNode 10 st name_a of
           Inl e \<Rightarrow> Inl e
         | Inr found \<Rightarrow>
             (case FFSOpen 10 st name_a FFS_RDWR 0 of
                Inl e \<Rightarrow> Inl e
              | Inr (fd, st1) \<Rightarrow>
                  Inr (map_option (\<lambda>(f, s). (s, FileSize f, Count f)) found,
                       fd,
                       FnodeSector (FileDescriptors st1 (nat fd)),
                       FileSize (Fnode (FileDescriptors st1 (nat fd))),
                       Count (Fnode (FileDescriptors st1 (nat fd))),
                       DeleteOldFile (FileDescriptors st1 (nat fd)),
                       OldFnodeSector (FileDescriptors st1 (nat fd))))))
   = Inr (Some (0, 5, 0), 0, NO_SECTOR, 0, 1, 1, 0)"
  by (simp add: ffs_eval created_a_def)

section \<open>Writing at the end of a full chain (C5)\<close>

text \<open>
  C5. The claim: a write of \<open>n > 0\<close> bytes to an open file whose cursor is at the file
  size, and whose chain is exactly full, appends a sector and returns \<open>n\<close>. In the code,
  \<^verbatim>\<open>write\<close> calls \<^verbatim>\<open>LocatePosition\<close> first, which walks past the last sector of a full
  chain and reads sector \<^verbatim>\<open>0xFFFFFFFF\<close>. On a fresh volume of sectors of 128 bytes, after
  \<^verbatim>\<open>open("a", FFS_CREATE, 0)\<close> and a write of 24 bytes, which returns 24 and fills the
  head sector (cursor and file size are 24), a write of one more byte returns
  \<^verbatim>\<open>FFS_RC_INVALID_SECTOR_NUMBER\<close>.
\<close>

theorem C5_write_at_end_of_full_chain_fails:
  "(case FFSOpen 10 (fresh_volume small_table) name_a FFS_CREATE 0 of
      Inl e \<Rightarrow> Inl e
    | Inr (fd, st1) \<Rightarrow>
        (case FFSWrite 10 st1 fd (replicate 24 0x41) 24 of
           Inl e \<Rightarrow> Inl e
         | Inr (rc1, st2) \<Rightarrow>
             (case FFSWrite 10 st2 fd [0x42] 1 of
                Inl e \<Rightarrow> Inl e
              | Inr (rc2, st3) \<Rightarrow>
                  Inr (rc1,
                       Position (FileDescriptors st2 (nat fd)),
                       FileSize (Fnode (FileDescriptors st2 (nat fd))),
                       rc2))))
   = Inr (24, 24, 24, FFS_RC_INVALID_SECTOR_NUMBER)"
  by (simp add: ffs_eval)

section \<open>Duplicate names in Check (C3)\<close>

text \<open>
  C3. The claim: on a volume with exactly two file node sectors whose names are equal
  without regard to case, \<^verbatim>\<open>Check\<close> leaves exactly one of them in use, the one with the
  higher count (the one scanned first on a tie), and every sector of the other chain is
  \<^verbatim>\<open>FREE_DIRTY\<close>. In the code, the loop that frees the chain of the loser assigns
  \<^verbatim>\<open>NextSector\<close>, the variable of the enclosing \<^verbatim>\<open>for\<close> loop, and leaves it at
  \<^verbatim>\<open>0xFFFFFFFF\<close>; unless the loop is left by \<^verbatim>\<open>break\<close>, \<^verbatim>\<open>NextSector++\<close>
  restarts the scan at sector 0, where the file of the outer loop is compared with itself
  and freed too. On the volume with \<^verbatim>\<open>"a"\<close> in sector 0 (count 1) and in sector 1
  (count 0), \<^verbatim>\<open>Check\<close> returns 2 and both head sectors are \<^verbatim>\<open>FREE_DIRTY\<close>; before the
  call both are \<^verbatim>\<open>IN_USE_FILENODE\<close>.
\<close>

theorem C3_check_frees_both_duplicates:
  "map_option (Status \<circ> header_of) (snd (ReadSector two_files 0 0 SIZEOF_SECTOR_HEADER))
     = Some FFS_SECTOR_HEADER_INUSE_FILENODE
   \<and> map_option (Status \<circ> header_of) (snd (ReadSector two_files 1 0 SIZEOF_SECTOR_HEADER))
     = Some FFS_SECTOR_HEADER_INUSE_FILENODE
   \<and> (case FFSCheck 20 two_files of
        Inl e \<Rightarrow> Inl e
      | Inr (st, fixed) \<Rightarrow>
          Inr (fixed,
               map_option (Status \<circ> header_of) (snd (ReadSector st 0 0 SIZEOF_SECTOR_HEADER)),
               map_option (Status \<circ> header_of) (snd (ReadSector st 1 0 SIZEOF_SECTOR_HEADER))))
     = Inr (2, Some FFS_SECTOR_HEADER_FREE_DIRTY, Some FFS_SECTOR_HEADER_FREE_DIRTY)"
  by (simp add: ffs_eval)

section \<open>Sector input and output, symbolically\<close>

lemma le16_rd16: "le16 (rd16 a b) = [a, b]"
proof -
  have "(ucast (rd16 a b) :: byte) = a"
    unfolding rd16_def by (rule bit_word_eqI) (auto simp: bit_simps)
  moreover have "(ucast (drop_bit 8 (rd16 a b)) :: byte) = b"
    unfolding rd16_def by (rule bit_word_eqI) (auto simp: bit_simps dest: bit_imp_le_length)
  ultimately show ?thesis by (simp add: le16_def)
qed

lemma ReadSector_unfold:
  "ReadSector st s off len =
     (case GetFlashSectionEntry st s of
        None \<Rightarrow> (FFS_RC_INVALID_SECTOR_NUMBER, None)
      | Some (k, r) \<Rightarrow>
          if 0 \<le> sint len \<and> unat off + unat len \<le> unat (SectorSize (FlashSectionTable st ! k))
          then (sint len, Some (map (media st (k, r)) [unat off ..< unat off + unat len]))
          else (SECTION_IO_ERROR, None))"
  by (cases "GetFlashSectionEntry st s") (auto simp: ReadSector_def section_Read_def)

lemma WriteSector_unfold:
  "WriteSector st why s off buf =
     (case GetFlashSectionEntry st s of
        None \<Rightarrow> (FFS_RC_INVALID_SECTOR_NUMBER, st)
      | Some (k, r) \<Rightarrow>
          if length buf < 2 ^ 31 \<and> unat off + length buf \<le> unat (SectorSize (FlashSectionTable st ! k))
          then (int (length buf),
                st\<lparr>media := (media st)((k, r) := nor_write (media st (k, r)) (unat off) buf),
                   journal := journal st @ [OpWrite why s off buf]\<rparr>)
          else (SECTION_IO_ERROR, st))"
  by (cases "GetFlashSectionEntry st s") (auto simp: WriteSector_def section_Write_def)

lemma GetFlashSectionEntry_cong:
  "FlashSectionTable st' = FlashSectionTable st \<Longrightarrow> GetFlashSectionEntry st' s = GetFlashSectionEntry st s"
  by (simp add: GetFlashSectionEntry_def)

lemma table_WriteSector [simp]:
  "FlashSectionTable (snd (WriteSector st why s off buf)) = FlashSectionTable st"
  by (cases "GetFlashSectionEntry st s") (auto simp: WriteSector_unfold)

lemma table_EraseSector [simp]:
  "FlashSectionTable (snd (EraseSector st s)) = FlashSectionTable st"
  by (cases "GetFlashSectionEntry st s") (auto simp: EraseSector_def section_Erase_def)

lemma ReadSector_cong:
  "FlashSectionTable st' = FlashSectionTable st \<Longrightarrow> media st' = media st \<Longrightarrow> ReadSector st' = ReadSector st"
proof (intro ext)
  fix s off len
  assume a: "FlashSectionTable st' = FlashSectionTable st" "media st' = media st"
  then have "GetFlashSectionEntry st' s = GetFlashSectionEntry st s"
    by (simp add: GetFlashSectionEntry_def)
  then show "ReadSector st' s off len = ReadSector st s off len"
    using a by (cases "GetFlashSectionEntry st s") (auto simp: ReadSector_unfold)
qed


section \<open>FreeSectors is idempotent (C10)\<close>

lemma header_of_map:
  "header_of (map m [0..<24]) =
     \<lparr>Key = rd32 (m 0) (m 1) (m 2) (m 3), Next = rd32 (m 4) (m 5) (m 6) (m 7),
      EraseCount = rd32 (m 8) (m 9) (m 10) (m 11), Version = m 12, Status = m 13,
      SectorChecksum = rd16 (m 14) (m 15),
      SectorLength = rd32 (m 16) (m 17) (m 18) (m 19),
      DataOffset = rd32 (m 20) (m 21) (m 22) (m 23)\<rparr>"
  by (simp add: header_of_def) (simp add: numeral_2_eq_2)

lemma ReadSector_header:
  "snd (ReadSector st s 0 SIZEOF_SECTOR_HEADER) =
     (case GetFlashSectionEntry st s of
        None \<Rightarrow> None
      | Some p \<Rightarrow> if 24 \<le> unat (SectorSize (FlashSectionTable st ! fst p))
                  then Some (map (media st p) [0..<24]) else None)"
  by (cases "GetFlashSectionEntry st s") (auto simp: ReadSector_unfold)

lemma version_word_eq:
  "version_word h = [Version h, Status h] @ le16 (SectorChecksum h)"
  by (simp add: version_word_def header_bytes_def le32_def le16_def)

text \<open>The effect of the status write of FreeSectors on the media.\<close>

lemma media_status_write:
  assumes "GetFlashSectionEntry st s = Some p" "24 \<le> unat (SectorSize (FlashSectionTable st ! fst p))"
  shows "media (snd (WriteSector st why s OFFSET_OF_VERSION (version_word h))) =
           (media st)(p := nor_write (media st p) 12 (version_word h))"
  using assms by (cases p) (simp add: WriteSector_unfold version_word_eq)

lemma chain_wf_frame:
  assumes "FlashSectionTable st' = FlashSectionTable st"
    and "\<And>p i. i < 12 \<or> 16 \<le> i \<Longrightarrow> media st' p i = media st p i"
  shows "chain_wf k st' s = chain_wf k st s"
proof (induction k arbitrary: s)
  case 0
  show ?case by simp
next
  case (Suc k)
  have g: "GetFlashSectionEntry st' s = GetFlashSectionEntry st s"
    using assms(1) by (simp add: GetFlashSectionEntry_def)
  show ?case
  proof (cases "GetFlashSectionEntry st s")
    case None
    then show ?thesis using g by (simp add: ReadSector_header)
  next
    case (Some p)
    have "Next (header_of (map (media st' p) [0..<24])) = Next (header_of (map (media st p) [0..<24]))"
      by (simp add: header_of_map assms(2))
    then show ?thesis
      using Some g assms(1) Suc.IH by (simp add: ReadSector_header)
  qed
qed

lemma FreeSectors_loop_first:
  assumes "chain_wf k st s" "k < fuel"
  shows "\<exists>st1. FreeSectors_loop fuel st s var = Inr st1
           \<and> FlashSectionTable st1 = FlashSectionTable st
           \<and> (\<forall>p i. i < 12 \<or> 16 \<le> i \<longrightarrow> media st1 p i = media st p i)
           \<and> (\<forall>p. media st p 13 = 0 \<longrightarrow> media st1 p 13 = 0)
           \<and> chain_freed k st1 s"
  using assms
proof (induction k arbitrary: st s fuel var)
  case 0
  then obtain f where "fuel = Suc f" by (cases fuel) auto
  with 0 show ?case by simp
next
  case (Suc k)
  then obtain f where f: "fuel = Suc f" "k < f" by (cases fuel) auto
  show ?case
  proof (cases "s = NO_SECTOR")
    case True
    then show ?thesis using f by simp
  next
    case False
    with Suc.prems(1) obtain p where p: "GetFlashSectionEntry st s = Some p"
      "24 \<le> unat (SectorSize (FlashSectionTable st ! fst p))"
      and wf: "chain_wf k st (Next (header_of (map (media st p) [0..<24])))"
      by (auto simp: ReadSector_header split: option.splits if_splits)
    define h where "h = header_of (map (media st p) [0..<24])"
    define h' where "h' = h\<lparr>Status := FFS_SECTOR_HEADER_FREE_DIRTY\<rparr>"
    define st' where "st' = snd (WriteSector st StatusMark s OFFSET_OF_VERSION (version_word h'))"
    have rd: "read_into var header_of (ReadSector st s 0 SIZEOF_SECTOR_HEADER) = Some h"
      using p by (simp add: read_into_def ReadSector_header h_def)
    have tbl: "FlashSectionTable st' = FlashSectionTable st"
      by (simp add: st'_def)
    have med: "media st' = (media st)(p := nor_write (media st p) 12 (version_word h'))"
      unfolding st'_def using p by (rule media_status_write)
    have off: "media st' q i = media st q i" if "i < 12 \<or> 16 \<le> i" for q i
      using that by (auto simp: med nor_write_def version_word_eq)
    have zero: "media st' p 13 = 0"
      by (simp add: med nor_write_def version_word_eq h'_def)
    have keep: "media st' q 13 = 0" if "media st q 13 = 0" for q
      using that by (auto simp: med nor_write_def version_word_eq)
    have "chain_wf k st' (Next h)"
      using wf chain_wf_frame [OF tbl off] by (simp add: h_def)
    from Suc.IH [OF this f(2), of "Some h'"] obtain st1 where st1:
      "FreeSectors_loop f st' (Next h) (Some h') = Inr st1"
      "FlashSectionTable st1 = FlashSectionTable st'"
      "\<forall>q i. i < 12 \<or> 16 \<le> i \<longrightarrow> media st1 q i = media st' q i"
      "\<forall>q. media st' q 13 = 0 \<longrightarrow> media st1 q 13 = 0"
      "chain_freed k st1 (Next h)"
      by blast
    have run: "FreeSectors_loop fuel st s var = Inr st1"
      using False rd st1(1) by (simp add: f h'_def st'_def)
    have g1: "GetFlashSectionEntry st1 s = Some p"
      using p(1) st1(2) tbl by (simp add: GetFlashSectionEntry_def)
    have nx: "Next (header_of (map (media st1 p) [0..<24])) = Next h"
      by (simp add: header_of_map h_def st1(3) [rule_format] off)
    have stt: "Status (header_of (map (media st1 p) [0..<24])) = 0"
      using st1(4) [rule_format, OF zero] by (simp add: header_of_map)
    have "chain_freed (Suc k) st1 s"
      using g1 p(2) st1(2) tbl nx stt st1(5) by (simp add: ReadSector_header)
    moreover have "\<forall>q i. i < 12 \<or> 16 \<le> i \<longrightarrow> media st1 q i = media st q i"
      using st1(3) off by metis
    moreover have "\<forall>q. media st q 13 = 0 \<longrightarrow> media st1 q 13 = 0"
      using st1(4) keep by blast
    ultimately show ?thesis
      using run st1(2) tbl by simp
  qed
qed

lemma chain_freed_cong:
  assumes "FlashSectionTable st' = FlashSectionTable st" "media st' = media st"
  shows "chain_freed k st' s = chain_freed k st s"
  by (induction k arbitrary: s) (auto simp: ReadSector_cong [OF assms] split: option.splits)

lemma FreeSectors_loop_second:
  assumes "chain_freed k st s" "k < fuel"
  shows "\<exists>st2. FreeSectors_loop fuel st s var = Inr st2
           \<and> FlashSectionTable st2 = FlashSectionTable st \<and> media st2 = media st"
  using assms
proof (induction k arbitrary: st s fuel var)
  case 0
  then obtain f where "fuel = Suc f" by (cases fuel) auto
  with 0 show ?case by simp
next
  case (Suc k)
  then obtain f where f: "fuel = Suc f" "k < f" by (cases fuel) auto
  show ?case
  proof (cases "s = NO_SECTOR")
    case True
    then show ?thesis using f by simp
  next
    case False
    with Suc.prems(1) obtain p where p: "GetFlashSectionEntry st s = Some p"
      "24 \<le> unat (SectorSize (FlashSectionTable st ! fst p))"
      and fr: "Status (header_of (map (media st p) [0..<24])) = 0"
        "chain_freed k st (Next (header_of (map (media st p) [0..<24])))"
      by (auto simp: ReadSector_header split: option.splits if_splits)
    define h where "h = header_of (map (media st p) [0..<24])"
    define h' where "h' = h\<lparr>Status := FFS_SECTOR_HEADER_FREE_DIRTY\<rparr>"
    define st' where "st' = snd (WriteSector st StatusMark s OFFSET_OF_VERSION (version_word h'))"
    have rd: "read_into var header_of (ReadSector st s 0 SIZEOF_SECTOR_HEADER) = Some h"
      using p by (simp add: read_into_def ReadSector_header h_def)
    have tbl: "FlashSectionTable st' = FlashSectionTable st"
      by (simp add: st'_def)
    have m13: "media st p 13 = 0"
      using fr(1) by (simp add: header_of_map)
    have "nor_write (media st p) 12 (version_word h') = media st p"
    proof
      fix i :: nat
      consider "i < 12 \<or> 16 \<le> i" | "i = 12" | "i = 13" | "i = 14" | "i = 15"
        by linarith
      then show "nor_write (media st p) 12 (version_word h') i = media st p i"
        by cases (auto simp: nor_write_def version_word_eq h'_def h_def header_of_map le16_rd16 m13)
    qed
    then have med: "media st' = media st"
      unfolding st'_def media_status_write [OF p] by simp
    have "chain_freed k st' (Next h)"
      using fr(2) chain_freed_cong [OF tbl med] by (simp add: h_def)
    from Suc.IH [OF this f(2), of "Some h'"] obtain st2 where st2:
      "FreeSectors_loop f st' (Next h) (Some h') = Inr st2"
      "FlashSectionTable st2 = FlashSectionTable st'" "media st2 = media st'"
      by blast
    have "FreeSectors_loop fuel st s var = Inr st2"
      using False rd st2(1) by (simp add: f h'_def st'_def)
    then show ?thesis using st2 tbl med by simp
  qed
qed


text \<open>
  C10. For every chain head \<open>h\<close> whose chain is well formed (at most \<open>k\<close> sectors, all
  readable, ended by \<^verbatim>\<open>0xFFFFFFFF\<close>), \<^verbatim>\<open>FreeSectors(h)\<close> returns with more than \<open>k\<close>
  units of fuel, a second call returns too, and the second call leaves every byte of the
  flash as the first call left it.
\<close>

theorem C10_FreeSectors_idempotent:
  assumes "chain_wf k st h" "k < fuel"
  shows "\<exists>st1 st2. FreeSectors fuel st h = Inr st1 \<and> FreeSectors fuel st1 h = Inr st2
           \<and> media st2 = media st1"
proof -
  from FreeSectors_loop_first [OF assms, of None] obtain st1 where
    st1: "FreeSectors_loop fuel st h None = Inr st1" "chain_freed k st1 h"
    by blast
  from FreeSectors_loop_second [OF st1(2) assms(2), of None] obtain st2 where
    "FreeSectors_loop fuel st1 h None = Inr st2" "media st2 = media st1"
    by blast
  with st1(1) show ?thesis by (simp add: FreeSectors_def)
qed

theorem C10_FreeSectors_idempotent_witness:
  "chain_wf 2 linked_file 0
   \<and> (\<exists>st1 st2. FreeSectors 3 linked_file 0 = Inr st1 \<and> FreeSectors 3 st1 0 = Inr st2
         \<and> media st2 = media st1)"
proof -
  have wf: "chain_wf 2 linked_file 0"
    by (simp add: ffs_eval)
  from C10_FreeSectors_idempotent [OF wf, of 3] wf show ?thesis
    by simp
qed

section \<open>Allocation, symbolically\<close>

lemma GetFlashSectionEntry_loop_index:
  "GetFlashSectionEntry_loop tbl k0 s = Some (k, r) \<Longrightarrow>
     k0 \<le> k \<and> k - k0 < length tbl \<and> tbl ! (k - k0) \<in> set tbl
     \<and> Device (tbl ! (k - k0)) \<noteq> 0xff"
proof (induction tbl k0 s rule: GetFlashSectionEntry_loop.induct)
  case (1 k Sector)
  then show ?case by simp
next
  case (2 s rest k0 Sector)
  show ?case
  proof (cases "Device s = 0xff \<or> Sector < FFS_FLASH_SECTION.Count s")
    case True
    with "2.prems" show ?thesis by (auto split: if_splits)
  next
    case False
    with "2.prems" obtain s' rest' where r: "rest = s' # rest'"
      by (cases rest) auto
    with False "2.prems" have
      "GetFlashSectionEntry_loop rest (Suc k0) (Sector - FFS_FLASH_SECTION.Count s') = Some (k, r)"
      by simp
    from "2.IH" [OF _ _ r this] False
    have "Suc k0 \<le> k \<and> k - Suc k0 < length rest \<and> rest ! (k - Suc k0) \<in> set rest
          \<and> Device (rest ! (k - Suc k0)) \<noteq> 0xff"
      by simp
    then show ?thesis
      by (auto simp: Suc_diff_Suc nth_Cons')
  qed
qed

lemma fit_size:
  assumes "sectors_fit (FlashSectionTable st)" "GetFlashSectionEntry st s = Some p"
  shows "104 \<le> unat (SectorSize (FlashSectionTable st ! fst p))"
proof -
  obtain k r where p: "p = (k, r)" by (cases p)
  from GetFlashSectionEntry_loop_index [of "FlashSectionTable st" 0 s k r] assms(2) p
  have "FlashSectionTable st ! k \<in> set (FlashSectionTable st)
        \<and> Device (FlashSectionTable st ! k) \<noteq> 0xff"
    by (simp add: GetFlashSectionEntry_def)
  with assms(1) show ?thesis
    by (auto simp: sectors_fit_def list_all_iff p)
qed

lemma EraseSector_valid:
  "GetFlashSectionEntry st s = Some p \<Longrightarrow>
     EraseSector st s = (0, st\<lparr>media := (media st)(p := erased), journal := journal st @ [OpErase s]\<rparr>)"
  by (cases p) (simp add: EraseSector_def section_Erase_def)

lemma WriteSector_valid:
  "GetFlashSectionEntry st s = Some p \<Longrightarrow> length buf < 2 ^ 31 \<Longrightarrow>
   unat off + length buf \<le> unat (SectorSize (FlashSectionTable st ! fst p)) \<Longrightarrow>
     WriteSector st why s off buf =
       (int (length buf),
        st\<lparr>media := (media st)(p := nor_write (media st p) (unat off) buf),
           journal := journal st @ [OpWrite why s off buf]\<rparr>)"
  by (cases p) (simp add: WriteSector_unfold)

lemma WriteSector_journal:
  "journal (snd (WriteSector st why s off buf)) = journal st
   \<or> journal (snd (WriteSector st why s off buf)) = journal st @ [OpWrite why s off buf]"
  by (cases "GetFlashSectionEntry st s") (auto simp: WriteSector_unfold)

lemma FindFreeSector_loop_frame:
  "FindFreeSector_loop fuel st S var = Inr (st1, r) \<Longrightarrow>
     journal st1 = journal st \<and> FlashSectionTable st1 = FlashSectionTable st
     \<and> media st1 = media st \<and> FileDescriptors st1 = FileDescriptors st
     \<and> (\<forall>N h k. r = Some (N, h, k) \<longrightarrow> (\<exists>rel. GetFlashSectionEntry st N = Some (k, rel)))"
proof (induction fuel arbitrary: S var)
  case 0
  then show ?case by simp
next
  case (Suc fuel)
  show ?case
  proof (cases "GetFlashSectionEntry st S")
    case None
    with Suc.prems show ?thesis by auto
  next
    case (Some p)
    obtain k rel where p: "p = (k, rel)" by (cases p)
    show ?thesis
    proof (cases "read_into var header_of (ReadSector st S 0 SIZEOF_SECTOR_HEADER)")
      case None
      with Suc.prems Some p show ?thesis by simp
    next
      case (Some h)
      note h = this
      show ?thesis
      proof (cases "Key h = FFS_SECTOR_HEADER_KEY
                      \<and> \<not> (Status h = FFS_SECTOR_HEADER_FREE \<or> Status h = FFS_SECTOR_HEADER_FREE_DIRTY)")
        case True
        with Suc.prems \<open>GetFlashSectionEntry st S = Some p\<close> p h
        have "FindFreeSector_loop fuel st (S + 1) (Some h) = Inr (st1, r)"
          by simp
        from Suc.IH [OF this] show ?thesis .
      next
        case False
        with Suc.prems \<open>GetFlashSectionEntry st S = Some p\<close> p h show ?thesis
          by (auto split: if_splits)
      qed
    qed
  qed
qed


lemma nor_write_0 [simp]: "nor_write m (unat (0::ulong)) buf = nor_write m 0 buf"
  by simp

lemma erase_then_header:
  assumes v: "GetFlashSectionEntry st N = Some p"
    and sz: "24 \<le> unat (SectorSize (FlashSectionTable st ! fst p))"
  shows "snd (WriteSector (snd (EraseSector st N)) HeaderImage N 0 (header_bytes h)) = allocated st N p h"
proof -
  define st2 where "st2 = snd (EraseSector st N)"
  have st2: "st2 = st\<lparr>media := (media st)(p := erased), journal := journal st @ [OpErase N]\<rparr>"
    by (simp add: st2_def EraseSector_valid [OF v])
  have v2: "GetFlashSectionEntry st2 N = Some p"
    using v by (simp add: st2 GetFlashSectionEntry_def)
  have "WriteSector st2 HeaderImage N 0 (header_bytes h) =
          (24, st2\<lparr>media := (media st2)(p := nor_write (media st2 p) 0 (header_bytes h)),
                   journal := journal st2 @ [OpWrite HeaderImage N 0 (header_bytes h)]\<rparr>)"
    using WriteSector_valid [OF v2, of "header_bytes h" 0 HeaderImage] sz by (simp add: st2)
  then show ?thesis
    unfolding st2_def [symmetric] by (simp add: st2 allocated_def)
qed

lemma AllocateSector_result:
  assumes fit: "sectors_fit (FlashSectionTable st)"
  shows "AllocateSector fuel st var =
     (case FindFreeSector_loop fuel st 0 var of
        Inl e \<Rightarrow> Inl e
      | Inr (st1, None) \<Rightarrow> Inr (FFS_RC_OUT_OF_SPACE, st1, None)
      | Inr (st1, Some (N, h, k)) \<Rightarrow>
          (case GetFlashSectionEntry st N of
             None \<Rightarrow> Inl OutOfFuel
           | Some p \<Rightarrow>
               Inr (0, allocated st1 N p
                         (fresh_header FFS_SECTOR_HEADER_INUSE SIZEOF_SECTOR_HEADER (EraseCount h)
                            (SectorSize (FlashSectionTable st ! k))),
                    Some (N, fresh_header FFS_SECTOR_HEADER_INUSE SIZEOF_SECTOR_HEADER (EraseCount h)
                            (SectorSize (FlashSectionTable st ! k))))))"
proof (cases "FindFreeSector_loop fuel st 0 var")
  case (Inl e)
  then show ?thesis by (simp add: AllocateSector_def FindFreeSector_def)
next
  case (Inr x)
  obtain st1 found where x: "x = (st1, found)" by (cases x)
  note fr = FindFreeSector_loop_frame [OF Inr [unfolded x]]
  show ?thesis
  proof (cases found)
    case None
    with Inr x show ?thesis by (simp add: AllocateSector_def FindFreeSector_def)
  next
    case (Some y)
    obtain N h k where y: "y = (N, h, k)" by (cases y)
    from fr Some y obtain rel where v: "GetFlashSectionEntry st N = Some (k, rel)"
      by auto
    then have v1: "GetFlashSectionEntry st1 N = Some (k, rel)"
      using fr by (simp add: GetFlashSectionEntry_def)
    have "24 \<le> unat (SectorSize (FlashSectionTable st1 ! fst (k, rel)))"
      using fit_size [OF fit v] fr by simp
    note eh = erase_then_header [OF v1 this]
    show ?thesis
      using Inr x Some y v fr
      by (simp add: AllocateSector_def FindFreeSector_def Let_def eh fresh_header_def)
  qed
qed

lemma AllocateSectorWithFilenode_result:
  assumes fit: "sectors_fit (FlashSectionTable st)"
  shows "AllocateSectorWithFilenode fuel st var =
     (case FindFreeSector_loop fuel st 0 var of
        Inl e \<Rightarrow> Inl e
      | Inr (st1, None) \<Rightarrow> Inr (FFS_RC_OUT_OF_SPACE, st1, None)
      | Inr (st1, Some (N, h, k)) \<Rightarrow>
          (case GetFlashSectionEntry st N of
             None \<Rightarrow> Inl OutOfFuel
           | Some p \<Rightarrow>
               Inr (0, allocated st1 N p
                         (fresh_header FFS_SECTOR_HEADER_INUSE_FILENODE
                            (SIZEOF_SECTOR_HEADER + SIZEOF_FILE_NODE) (EraseCount h)
                            (SectorSize (FlashSectionTable st ! k))),
                    Some (N, fresh_header FFS_SECTOR_HEADER_INUSE_FILENODE
                            (SIZEOF_SECTOR_HEADER + SIZEOF_FILE_NODE) (EraseCount h)
                            (SectorSize (FlashSectionTable st ! k))))))"
proof (cases "FindFreeSector_loop fuel st 0 var")
  case (Inl e)
  then show ?thesis by (simp add: AllocateSectorWithFilenode_def FindFreeSector_def)
next
  case (Inr x)
  obtain st1 found where x: "x = (st1, found)" by (cases x)
  note fr = FindFreeSector_loop_frame [OF Inr [unfolded x]]
  show ?thesis
  proof (cases found)
    case None
    with Inr x show ?thesis by (simp add: AllocateSectorWithFilenode_def FindFreeSector_def)
  next
    case (Some y)
    obtain N h k where y: "y = (N, h, k)" by (cases y)
    from fr Some y obtain rel where v: "GetFlashSectionEntry st N = Some (k, rel)"
      by auto
    then have v1: "GetFlashSectionEntry st1 N = Some (k, rel)"
      using fr by (simp add: GetFlashSectionEntry_def)
    have "24 \<le> unat (SectorSize (FlashSectionTable st1 ! fst (k, rel)))"
      using fit_size [OF fit v] fr by simp
    note eh = erase_then_header [OF v1 this]
    show ?thesis
      using Inr x Some y v fr
      by (simp add: AllocateSectorWithFilenode_def FindFreeSector_def Let_def eh fresh_header_def)
  qed
qed


lemma status_of_header_bytes: "header_bytes h ! 13 = Status h"
  by (simp add: header_bytes_def le32_def nth_append)

lemma LocatePosition_loop_valid:
  "LocatePosition_loop fuel st Pos S Cnt = Inr (rc, Some (S', h, off)) \<Longrightarrow>
     \<exists>p. GetFlashSectionEntry st S' = Some p"
proof (induction fuel arbitrary: S Cnt)
  case 0
  then show ?case by simp
next
  case (Suc fuel)
  show ?case
  proof (cases "GetFlashSectionEntry st S")
    case None
    with Suc.prems show ?thesis by (simp add: ReadSector_unfold)
  next
    case (Some p)
    with Suc.prems Suc.IH show ?thesis
      by (auto simp: Let_def split: prod.splits if_splits option.splits)
  qed
qed

lemma journal_advance_write [simp]: "journal (advance_write st fd n) = journal st"
  by (simp add: advance_write_def set_descriptor_def Let_def)

lemma table_advance_write [simp]: "FlashSectionTable (advance_write st fd n) = FlashSectionTable st"
  by (simp add: advance_write_def set_descriptor_def Let_def)

lemma chained_then_filled_data:
  assumes "ops = [] \<or> ops = [OpWrite FileData s off img]" "s \<notin> set pend"
  shows "chained_then_filled (Some s) hdrs pend (ops @ rest)
           = chained_then_filled (Some s) hdrs pend rest"
  using assms by auto

lemma write_loop_order:
  assumes fit: "sectors_fit (FlashSectionTable st)"
    and v: "GetFlashSectionEntry st Sector = Some p"
    and run: "write_loop fuel st fd buf bufpos n Sector SecHead Offset Tot = Inr (rc, st')"
    and np: "Sector \<notin> set pend"
  shows "\<exists>ops. journal st' = journal st @ ops
           \<and> chained_then_filled (Some Sector) hdrs pend ops"
  using assms
proof (induction fuel arbitrary: st Sector p SecHead Offset Tot bufpos n hdrs pend)
  case 0
  then show ?case by simp
next
  case (Suc fuel)
  show ?case
  proof (cases "n = 0")
    case True
    with Suc.prems(3) show ?thesis by simp
  next
    case False
    define RemLen where "RemLen = (if n < SectorLength SecHead - Offset then n
                                   else SectorLength SecHead - Offset)"
    define chunk where "chunk = take (unat RemLen) (drop bufpos buf)"
    define st1 where "st1 = snd (WriteSector st FileData Sector Offset chunk)"
    define st2 where "st2 = advance_write st1 fd RemLen"
    obtain d where d: "journal st2 = journal st @ d"
      "d = [] \<or> d = [OpWrite FileData Sector Offset chunk]"
      using WriteSector_journal [of st FileData Sector Offset chunk]
      by (auto simp: st2_def st1_def)
    have t2: "FlashSectionTable st2 = FlashSectionTable st"
      by (simp add: st2_def st1_def)
    have dd: "chained_then_filled (Some Sector) hdrs pend (d @ rest)
                = chained_then_filled (Some Sector) hdrs pend rest" for rest
      using chained_then_filled_data [OF d(2) Suc.prems(4)] .
    have nb: "\<not> length buf < bufpos + unat RemLen"
      using Suc.prems(3) False by (auto simp: RemLen_def Let_def split: if_splits)
    show ?thesis
    proof (cases "n - RemLen = 0")
      case True
      with Suc.prems(3) False nb have "st' = st2"
        by (simp add: Let_def RemLen_def [symmetric] chunk_def [symmetric] st1_def [symmetric]
                      st2_def [symmetric])
      with d dd [of "[]"] show ?thesis by simp
    next
      case more: False
      have fit2: "sectors_fit (FlashSectionTable st2)"
        using Suc.prems(1) t2 by simp
      from Suc.prems(3) False nb more
      have run: "(case AllocateSector fuel st2 (Some SecHead) of
                    Inl e \<Rightarrow> Inl e
                  | Inr (rc, st3, None) \<Rightarrow> Inr (rc, st3)
                  | Inr (rc, st3, Some (NewSector, SecHead1)) \<Rightarrow>
                      (let st4 = snd (WriteSector st3 NextLink Sector OFFSET_OF_NEXT (le32 NewSector))
                       in write_loop fuel st4 fd buf (bufpos + unat RemLen) (n - RemLen) NewSector
                            SecHead1 SIZEOF_SECTOR_HEADER (Tot + RemLen))) = Inr (rc, st')"
        by (simp add: Let_def RemLen_def [symmetric] chunk_def [symmetric] st1_def [symmetric]
                      st2_def [symmetric])
      show ?thesis
      proof (cases "FindFreeSector_loop fuel st2 0 (Some SecHead)")
        case (Inl e)
        with run show ?thesis
          by (simp add: AllocateSector_result [OF fit2])
      next
        case (Inr x)
        obtain sta found where x: "x = (sta, found)" by (cases x)
        note fr = FindFreeSector_loop_frame [OF Inr [unfolded x]]
        show ?thesis
        proof (cases found)
          case None
          with run Inr x have "st' = sta"
            by (simp add: AllocateSector_result [OF fit2])
          with fr d dd [of "[]"] show ?thesis by simp
        next
          case (Some y)
          obtain N h k where y: "y = (N, h, k)" by (cases y)
          from fr Some y obtain rel where vN: "GetFlashSectionEntry st2 N = Some (k, rel)"
            by auto
          define hd1 where "hd1 = fresh_header FFS_SECTOR_HEADER_INUSE SIZEOF_SECTOR_HEADER
                                    (EraseCount h) (SectorSize (FlashSectionTable st2 ! k))"
          define st3 where "st3 = allocated sta N (k, rel) hd1"
          define st4 where "st4 = snd (WriteSector st3 NextLink Sector OFFSET_OF_NEXT (le32 N))"
          have t3: "FlashSectionTable st3 = FlashSectionTable st"
            using fr t2 by (simp add: st3_def allocated_def)
          have j3: "journal st3 = journal st @ d @ [OpErase N, OpWrite HeaderImage N 0 (header_bytes hd1)]"
            using fr d by (simp add: st3_def allocated_def)
          have v3: "GetFlashSectionEntry st3 Sector = Some p"
            using Suc.prems(2) t3 by (simp add: GetFlashSectionEntry_def)
          have sz: "104 \<le> unat (SectorSize (FlashSectionTable st3 ! fst p))"
            using fit_size [OF Suc.prems(1) Suc.prems(2)] t3 by simp
          have w: "WriteSector st3 NextLink Sector OFFSET_OF_NEXT (le32 N) =
                     (4, st3\<lparr>media := (media st3)(p := nor_write (media st3 p) (unat OFFSET_OF_NEXT) (le32 N)),
                             journal := journal st3 @ [OpWrite NextLink Sector OFFSET_OF_NEXT (le32 N)]\<rparr>)"
            using WriteSector_valid [OF v3, of "le32 N" OFFSET_OF_NEXT NextLink] sz by simp
          have j4: "journal st4 = journal st @ d @ [OpErase N, OpWrite HeaderImage N 0 (header_bytes hd1),
                                     OpWrite NextLink Sector OFFSET_OF_NEXT (le32 N)]"
            by (simp add: st4_def w j3)
          have t4: "FlashSectionTable st4 = FlashSectionTable st"
            by (simp add: st4_def t3)
          have fit4: "sectors_fit (FlashSectionTable st4)"
            using Suc.prems(1) t4 by simp
          have v4: "GetFlashSectionEntry st4 N = Some (k, rel)"
            using vN t4 t2 by (simp add: GetFlashSectionEntry_def)
          have run4: "write_loop fuel st4 fd buf (bufpos + unat RemLen) (n - RemLen) N hd1
                        SIZEOF_SECTOR_HEADER (Tot + RemLen) = Inr (rc, st')"
            using run Inr x Some y vN
            by (simp add: AllocateSector_result [OF fit2] hd1_def st3_def st4_def)
          define hdrs' where "hdrs' = N # removeAll N hdrs"
          define pend' where "pend' = removeAll N (N # removeAll N pend)"
          have "N \<notin> set pend'" by (simp add: pend'_def)
          from Suc.IH [OF fit4 v4 run4 this, of hdrs'] obtain ops where
            ops: "journal st' = journal st4 @ ops" "chained_then_filled (Some N) hdrs' pend' ops"
            by blast
          have "chained_then_filled (Some Sector) hdrs pend
                  (d @ [OpErase N, OpWrite HeaderImage N 0 (header_bytes hd1),
                        OpWrite NextLink Sector OFFSET_OF_NEXT (le32 N)] @ ops)"
            using ops(2)
            by (simp add: dd status_of_header_bytes hd1_def fresh_header_def hdrs'_def pend'_def)
          with ops(1) j4 show ?thesis by simp
        qed
      qed
    qed
  qed
qed


section \<open>The order of header, link and data in write (C9)\<close>

lemma fit_small_table: "sectors_fit small_table"
  by (simp add: sectors_fit_def small_table_def section_of_def end_of_table_def)

text \<open>
  C9, amended. On a volume whose sectors hold at least a header and a file node, in every
  execution of \<^verbatim>\<open>write(fd, buf, n)\<close> that returns, the flash operations of the call
  are in this order: the header of each newly allocated sector is written before the
  \<^verbatim>\<open>Next\<close> field of its predecessor, the sector that the write was working in, is
  patched to point at it, and the data bytes of the new sector are written after that
  patch. The write starts in the sector \<open>write_start\<close>, or in the head sector that it
  allocates.
\<close>

theorem C9_header_then_link_then_data:
  assumes "sectors_fit (FlashSectionTable st)"
    and "FFSWrite fuel st fd buf n = Inr (rc, st')"
  shows "\<exists>ops. journal st' = journal st @ ops
           \<and> chained_then_filled (write_start fuel st fd) [] [] ops"
proof (cases "SanityCheck st fd")
  case (Inl e)
  with assms(2) show ?thesis by (simp add: FFSWrite_def)
next
  case (Inr ok)
  show ?thesis
  proof (cases ok)
    case False
    with Inr assms(2) show ?thesis by (simp add: FFSWrite_def)
  next
    case True
    define Fdesc where "Fdesc = FileDescriptors st (nat fd)"
    show ?thesis
    proof (cases "FnodeSector Fdesc = NO_SECTOR")
      case fresh: True
      with Inr True assms(2)
      have run: "(case AllocateSectorWithFilenode fuel st None of
                    Inl e \<Rightarrow> Inl e
                  | Inr (rc, st1, None) \<Rightarrow> Inr (rc, st1)
                  | Inr (rc, st1, Some (Sector, SecHead)) \<Rightarrow>
                      (let st2 = set_descriptor st1 (nat fd)
                                   ((FileDescriptors st1 (nat fd))\<lparr>WriteFnode := 1, FnodeSector := Sector\<rparr>)
                       in write_loop fuel st2 (nat fd) buf 0 (word_of_int n) Sector SecHead
                            (SIZEOF_SECTOR_HEADER + SIZEOF_FILE_NODE) 0)) = Inr (rc, st')"
        by (simp add: FFSWrite_def Fdesc_def)
      show ?thesis
      proof (cases "FindFreeSector_loop fuel st 0 None")
        case (Inl e)
        with run show ?thesis
          by (simp add: AllocateSectorWithFilenode_result [OF assms(1)])
      next
        case (Inr x)
        obtain sta found where x: "x = (sta, found)" by (cases x)
        note fr = FindFreeSector_loop_frame [OF Inr [unfolded x]]
        show ?thesis
        proof (cases found)
          case None
          with run Inr x have "st' = sta"
            by (simp add: AllocateSectorWithFilenode_result [OF assms(1)])
          with fr show ?thesis by simp
        next
          case (Some y)
          obtain N h k where y: "y = (N, h, k)" by (cases y)
          from fr Some y obtain rel where vN: "GetFlashSectionEntry st N = Some (k, rel)"
            by auto
          define hd1 where "hd1 = fresh_header FFS_SECTOR_HEADER_INUSE_FILENODE
                                    (SIZEOF_SECTOR_HEADER + SIZEOF_FILE_NODE)
                                    (EraseCount h) (SectorSize (FlashSectionTable st ! k))"
          define st1 where "st1 = allocated sta N (k, rel) hd1"
          define st2 where "st2 = set_descriptor st1 (nat fd)
                                    ((FileDescriptors st1 (nat fd))\<lparr>WriteFnode := 1, FnodeSector := N\<rparr>)"
          have t2: "FlashSectionTable st2 = FlashSectionTable st"
            using fr by (simp add: st2_def st1_def allocated_def set_descriptor_def)
          have j2: "journal st2 = journal st @ [OpErase N, OpWrite HeaderImage N 0 (header_bytes hd1)]"
            using fr by (simp add: st2_def st1_def allocated_def set_descriptor_def)
          have fit2: "sectors_fit (FlashSectionTable st2)"
            using assms(1) t2 by simp
          have v2: "GetFlashSectionEntry st2 N = Some (k, rel)"
            using vN t2 by (simp add: GetFlashSectionEntry_def)
          have run2: "write_loop fuel st2 (nat fd) buf 0 (word_of_int n) N hd1
                        (SIZEOF_SECTOR_HEADER + SIZEOF_FILE_NODE) 0 = Inr (rc, st')"
            using run Inr x Some y vN
            by (simp add: AllocateSectorWithFilenode_result [OF assms(1)] hd1_def st1_def st2_def)
          have "N \<notin> set []" by simp
          from write_loop_order [OF fit2 v2 run2 this, of "[N]"] obtain ops where
            ops: "journal st' = journal st2 @ ops" "chained_then_filled (Some N) [N] [] ops"
            by blast
          have "chained_then_filled None [] []
                  ([OpErase N, OpWrite HeaderImage N 0 (header_bytes hd1)] @ ops)"
            using ops(2) by (simp add: status_of_header_bytes hd1_def fresh_header_def)
          moreover have "write_start fuel st fd = None"
            using fresh by (simp add: write_start_def Fdesc_def)
          ultimately show ?thesis
            using ops(1) j2 by simp
        qed
      qed
    next
      case False
      with Inr True assms(2)
      have run: "(case LocatePosition fuel st Fdesc (Position Fdesc) of
                    Inl e \<Rightarrow> Inl e
                  | Inr (rc, None) \<Rightarrow> Inr (rc, st)
                  | Inr (rc, Some (Sector, SecHead, Offset)) \<Rightarrow>
                      write_loop fuel st (nat fd) buf 0 (word_of_int n) Sector SecHead Offset 0)
                 = Inr (rc, st')"
        by (simp add: FFSWrite_def Fdesc_def Let_def)
      show ?thesis
      proof (cases "LocatePosition fuel st Fdesc (Position Fdesc)")
        case (Inl e)
        with run show ?thesis by simp
      next
        case (Inr x)
        obtain rc1 found where x: "x = (rc1, found)" by (cases x)
        show ?thesis
        proof (cases found)
          case None
          with run Inr x show ?thesis by simp
        next
          case (Some y)
          obtain S h off where y: "y = (S, h, off)" by (cases y)
          from LocatePosition_loop_valid [of fuel st "Position Fdesc" "FnodeSector Fdesc" 0 rc1 S h off]
               Inr x Some y
          obtain p where v: "GetFlashSectionEntry st S = Some p"
            by (auto simp: LocatePosition_def)
          have run1: "write_loop fuel st (nat fd) buf 0 (word_of_int n) S h off 0 = Inr (rc, st')"
            using run Inr x Some y by simp
          have "S \<notin> set []" by simp
          have "write_start fuel st fd = Some S"
            using False Inr x Some y by (simp add: write_start_def Fdesc_def)
          with write_loop_order [OF assms(1) v run1 \<open>S \<notin> set []\<close>, of "[]"] show ?thesis
            by simp
        qed
      qed
    qed
  qed
qed

theorem C9_header_then_link_then_data_witness:
  "sectors_fit (FlashSectionTable opened_a)
   \<and> (\<exists>st'. FFSWrite 10 opened_a 0 (replicate 30 0x41) 30 = Inr (30, st')
         \<and> (\<exists>ops. journal st' = journal opened_a @ ops
                \<and> chained_then_filled (write_start 10 opened_a 0) [] [] ops))"
proof -
  have fit: "sectors_fit (FlashSectionTable opened_a)"
    by (simp add: opened_a_def fresh_volume_def mount_def set_descriptor_def fit_small_table)
  have "\<exists>st'. FFSWrite 10 opened_a 0 (replicate 30 0x41) 30 = Inr (30, st')"
    by (simp add: ffs_eval opened_a_def)
  then obtain st' where run: "FFSWrite 10 opened_a 0 (replicate 30 0x41) 30 = Inr (30, st')"
    by blast
  from C9_header_then_link_then_data [OF fit run] fit run show ?thesis
    by simp
qed

text \<open>
  C9 as stated fails: a write of 30 bytes to a new file on sectors of 128 bytes fills the
  head sector with 24 bytes, allocates sector 1, patches \<^verbatim>\<open>Next\<close> of sector 0, and
  only then writes the remaining 6 bytes to sector 1.
\<close>

theorem C9_data_follows_the_link:
  "\<exists>st'. FFSWrite 10 opened_a 0 (replicate 30 0x41) 30 = Inr (30, st')
     \<and> journal st' =
         [OpErase 0,
          OpWrite HeaderImage 0 0
            (header_bytes (fresh_header FFS_SECTOR_HEADER_INUSE_FILENODE 104 0xFFFFFFFF 128)),
          OpWrite FileData 0 104 (replicate 24 0x41),
          OpErase 1,
          OpWrite HeaderImage 1 0
            (header_bytes (fresh_header FFS_SECTOR_HEADER_INUSE 24 0xFFFFFFFF 128)),
          OpWrite NextLink 0 4 (le32 1),
          OpWrite FileData 1 24 (replicate 6 0x41)]
     \<and> \<not> filled_then_chained [] [] (journal st')"
  by (simp add: ffs_eval opened_a_def fresh_header_def)

section \<open>Reading sectors and locating file nodes, symbolically\<close>

lemma fnode_writes_append [simp]: "fnode_writes (a @ b) = fnode_writes a @ fnode_writes b"
  by (induction a rule: fnode_writes.induct) auto

lemma length_window [simp]: "length (window m off len) = len"
  by (simp add: window_def)

lemma nth_window [simp]: "i < len \<Longrightarrow> window m off len ! i = m (off + i)"
  by (simp add: window_def)

lemma ReadSector_window:
  assumes "GetFlashSectionEntry st s = Some p"
    and "0 \<le> sint len"
    and "unat off + unat len \<le> unat (SectorSize (FlashSectionTable st ! fst p))"
  shows "ReadSector st s off len = (sint len, Some (window (media st p) (unat off) (unat len)))"
  using assms by (cases p) (simp add: ReadSector_unfold window_def)

lemma ReadSector_fnode:
  assumes "GetFlashSectionEntry st s = Some p"
    and "104 \<le> unat (SectorSize (FlashSectionTable st ! fst p))"
  shows "ReadSector st s SIZEOF_SECTOR_HEADER SIZEOF_FILE_NODE = (80, Some (window (media st p) 24 80))"
  using ReadSector_window [OF assms(1), of SIZEOF_FILE_NODE SIZEOF_SECTOR_HEADER] assms(2) by simp

lemma ReadSector_head:
  assumes "GetFlashSectionEntry st s = Some p"
    and "104 \<le> unat (SectorSize (FlashSectionTable st ! fst p))"
  shows "ReadSector st s 0 SIZEOF_SECTOR_HEADER = (24, Some (window (media st p) 0 24))"
  using ReadSector_window [OF assms(1), of SIZEOF_SECTOR_HEADER 0] assms(2) by simp

lemma ValidSector_iff: "ValidSector st s = (\<exists>p. GetFlashSectionEntry st s = Some p)"
  by (cases "GetFlashSectionEntry st s") (auto simp: ValidSector_def)

lemma length_fnode_of:
  "80 \<le> length bs \<Longrightarrow> length (Filename (fnode_of bs)) = 65 \<and> length (Padding (fnode_of bs)) = 2"
  by (simp add: fnode_of_def)

text \<open>What \<^verbatim>\<open>LocateFileNode\<close> returns is the file node of the sector it names.\<close>

lemma LocateFileNode_loop_found:
  assumes fit: "sectors_fit (FlashSectionTable st)"
    and run: "LocateFileNode_loop fuel st C S sh fv = Inr (Some (f, s))"
  shows "\<exists>p. GetFlashSectionEntry st s = Some p
           \<and> f = fnode_of (window (media st p) 24 80)
           \<and> Status (header_of (window (media st p) 0 24)) = FFS_SECTOR_HEADER_INUSE_FILENODE
           \<and> StringToUpperCase (cstr (Filename f)) = C"
  using run
proof (induction fuel arbitrary: S sh fv)
  case 0
  then show ?case by simp
next
  case (Suc fuel)
  show ?case
  proof (cases "GetFlashSectionEntry st S")
    case None
    with Suc.prems show ?thesis by (simp add: ValidSector_iff)
  next
    case (Some p)
    note sz = fit_size [OF fit Some]
    note rh = ReadSector_head [OF Some sz]
    note rf = ReadSector_fnode [OF Some sz]
    define h where "h = header_of (window (media st p) 0 24)"
    define g where "g = fnode_of (window (media st p) 24 80)"
    have v: "ValidSector st S"
      using Some by (simp add: ValidSector_iff)
    show ?thesis
    proof (cases "Status h = FFS_SECTOR_HEADER_INUSE_FILENODE")
      case False
      with Suc.prems v have "LocateFileNode_loop fuel st C (S + 1) (Some h) fv = Inr (Some (f, s))"
        by (simp add: rh read_into_def h_def)
      from Suc.IH [OF this] show ?thesis .
    next
      case True
      show ?thesis
      proof (cases "StringToUpperCase (cstr (Filename g)) = C")
        case False
        with Suc.prems v True
        have "LocateFileNode_loop fuel st C (S + 1) (Some h) (Some g) = Inr (Some (f, s))"
          by (simp add: rh rf read_into_def h_def g_def split: if_splits)
        from Suc.IH [OF this] show ?thesis .
      next
        case match: True
        with Suc.prems v True have "f = g" "s = S"
          by (simp_all add: rh rf read_into_def h_def [symmetric] g_def [symmetric] split: if_splits)
        with Some True match show ?thesis
          by (simp add: h_def g_def)
      qed
    qed
  qed
qed

lemma LocateFileNode_loop_cong:
  assumes "FlashSectionTable st' = FlashSectionTable st" "media st' = media st"
  shows "LocateFileNode_loop fuel st' C S sh fv = LocateFileNode_loop fuel st C S sh fv"
proof (induction fuel arbitrary: S sh fv)
  case 0
  show ?case by simp
next
  case (Suc fuel)
  have v: "ValidSector st' S = ValidSector st S"
    using assms(1) by (simp add: ValidSector_def GetFlashSectionEntry_def)
  show ?case
    unfolding LocateFileNode_loop.simps v ReadSector_cong [OF assms] Suc.IH ..
qed

lemma LocateFileNode_Initialize [simp]:
  "LocateFileNode fuel (Initialize st) name = LocateFileNode fuel st name"
  by (simp add: LocateFileNode_def Initialize_def
        LocateFileNode_loop_cong [of "st\<lparr>initializationComplete := True\<rparr>" st])

lemma Rename_copy_loop_journal:
  "Rename_copy_loop st S N off len bufv = Inr st2 \<Longrightarrow>
     FlashSectionTable st2 = FlashSectionTable st
     \<and> (\<exists>ops. journal st2 = journal st @ ops \<and> fnode_writes ops = [])"
proof (induction st S N off len bufv rule: Rename_copy_loop.induct)
  case (1 st Sector NewSector Offset Len Buffer)
  show ?case
  proof (cases "Len = 0")
    case True
    with "1.prems" show ?thesis by (simp add: Rename_copy_loop.simps)
  next
    case False
    define n where "n = (if Len < SIZEOF_BUFFER then Len else SIZEOF_BUFFER)"
    from "1.prems" False obtain bs where
      bs: "read_into Buffer id (ReadSector st Sector Offset n) = Some bs"
      by (cases "read_into Buffer id (ReadSector st Sector Offset n)")
         (auto simp: Rename_copy_loop.simps [of st] Let_def n_def)
    define st1 where "st1 = snd (WriteSector st FileData NewSector Offset (take (unat n) bs))"
    have run: "Rename_copy_loop st1 Sector NewSector (Offset + n) (Len - n) (Some bs) = Inr st2"
      using "1.prems" False bs
      by (simp add: Rename_copy_loop.simps [of st] Let_def n_def [symmetric] st1_def)
    from "1.IH" [OF False n_def bs st1_def run]
    obtain ops where ops: "FlashSectionTable st2 = FlashSectionTable st1"
      "journal st2 = journal st1 @ ops" "fnode_writes ops = []"
      by blast
    from WriteSector_journal [of st FileData NewSector Offset "take (unat n) bs"]
    obtain d where d: "journal st1 = journal st @ d" "fnode_writes d = []"
      by (auto simp: st1_def)
    show ?thesis
      using ops d by (simp add: st1_def)
  qed
qed


lemma fnode_writes_other:
  "why \<noteq> FnodeImage \<Longrightarrow>
     journal (snd (WriteSector st why s off buf)) = journal st @ d \<Longrightarrow> fnode_writes d = []"
  using WriteSector_journal [of st why s off buf] by (cases why) auto

lemma journal_WriteSector_ex:
  "\<exists>d. journal (snd (WriteSector st why s off buf)) = journal st @ d
        \<and> (why \<noteq> FnodeImage \<longrightarrow> fnode_writes d = [])"
  using WriteSector_journal [of st why s off buf] by (cases why) auto


section \<open>The file node that Rename writes (C7)\<close>

text \<open>
  C7, amended. On a volume whose sectors hold at least a header and a file node, every
  successful \<^verbatim>\<open>Rename(old, new)\<close> erases a sector \<open>N\<close>, writes a head sector header
  to it, and then writes exactly one file node, to \<open>N\<close>: the source file node with the
  new name. Its \<^verbatim>\<open>Count\<close> is the \<^verbatim>\<open>Count\<close> of the source file node.
\<close>

theorem C7_rename_keeps_Count:
  assumes fit: "sectors_fit (FlashSectionTable st)"
    and run: "FFSRename fuel st name new_name = Inr (0, st')"
  shows "\<exists>f Sector N hdr rest f'.
           LocateFileNode fuel st name = Inr (Some (f, Sector))
           \<and> journal st' = journal st @ OpErase N # OpWrite HeaderImage N 0 (header_bytes hdr) # rest
           \<and> Status hdr = FFS_SECTOR_HEADER_INUSE_FILENODE
           \<and> fnode_writes rest = [(N, f')]
           \<and> f' = f\<lparr>Filename := strcpy (Filename f) new_name\<rparr>
           \<and> Count f' = Count f"
proof -
  define sti where "sti = Initialize st"
  have ti: "FlashSectionTable sti = FlashSectionTable st" and ji: "journal sti = journal st"
    and mi: "media sti = media st"
    by (simp_all add: sti_def Initialize_def)
  have fiti: "sectors_fit (FlashSectionTable sti)"
    using fit ti by simp
  have L: "LocateFileNode fuel sti nm = LocateFileNode fuel st nm" for nm
    by (simp add: sti_def)
  from run obtain f Sector where L1: "LocateFileNode fuel st name = Inr (Some (f, Sector))"
    by (cases "LocateFileNode fuel st name")
       (auto simp: FFSRename_def sti_def [symmetric] L Let_def split: option.splits)
  from run L1 have L2: "LocateFileNode fuel st new_name = Inr None"
    by (cases "LocateFileNode fuel st new_name")
       (auto simp: FFSRename_def sti_def [symmetric] L Let_def split: option.splits)
  have len: "length new_name \<le> FFS_MAX_FILENAME_LENGTH"
    using L2 by (auto simp: LocateFileNode_def split: if_splits)
  from L1 have "LocateFileNode_loop fuel st (StringToUpperCase name) 0 None None = Inr (Some (f, Sector))"
    by (auto simp: LocateFileNode_def split: if_splits)
  from LocateFileNode_loop_found [OF fit this] obtain p where
    p: "GetFlashSectionEntry st Sector = Some p" and f: "f = fnode_of (window (media st p) 24 80)"
    by blast
  have pi: "GetFlashSectionEntry sti Sector = Some p"
    using p ti by (simp add: GetFlashSectionEntry_def)
  define h0 where "h0 = header_of (window (media sti p) 0 24)"
  have rh: "read_into None header_of (ReadSector sti Sector 0 SIZEOF_SECTOR_HEADER) = Some h0"
    using ReadSector_head [OF pi fit_size [OF fiti pi]] by (simp add: read_into_def h0_def)
  note unf = FFSRename_def sti_def [symmetric] L L1 L2 rh Let_def
  show ?thesis
  proof (cases "FindFreeSector_loop fuel sti 0 (Some h0)")
    case (Inl e)
    with run show ?thesis
      by (simp add: unf AllocateSectorWithFilenode_result [OF fiti])
  next
    case (Inr x)
    obtain sta found where x: "x = (sta, found)" by (cases x)
    note fr = FindFreeSector_loop_frame [OF Inr [unfolded x]]
    show ?thesis
    proof (cases found)
      case None
      with run Inr x show ?thesis
        by (simp add: unf AllocateSectorWithFilenode_result [OF fiti])
    next
      case (Some y)
      obtain N h k where y: "y = (N, h, k)" by (cases y)
      from fr Some y obtain rel where vN: "GetFlashSectionEntry sti N = Some (k, rel)"
        by auto
      define hd1 where "hd1 = fresh_header FFS_SECTOR_HEADER_INUSE_FILENODE
                                (SIZEOF_SECTOR_HEADER + SIZEOF_FILE_NODE)
                                (EraseCount h) (SectorSize (FlashSectionTable sti ! k))"
      define st1 where "st1 = allocated sta N (k, rel) hd1"
      have al: "AllocateSectorWithFilenode fuel sti (Some h0) = Inr (0, st1, Some (N, hd1))"
        using Inr x Some y vN
        by (simp add: AllocateSectorWithFilenode_result [OF fiti] hd1_def st1_def)
      have t1: "FlashSectionTable st1 = FlashSectionTable st"
        using fr ti by (simp add: st1_def allocated_def)
      have j1: "journal st1 = journal st @ [OpErase N, OpWrite HeaderImage N 0 (header_bytes hd1)]"
        using fr ji by (simp add: st1_def allocated_def)
      define f' where "f' = f\<lparr>Filename := strcpy (Filename f) new_name\<rparr>"
      from run al len obtain st2 where
        cp: "Rename_copy_loop st1 Sector N (DataOffset hd1) (SectorLength h0 - DataOffset h0) None = Inr st2"
        and fin: "st' = snd (WriteSector
                    (if Next h0 \<noteq> NO_SECTOR
                     then snd (WriteSector (snd (WriteSector st2 FnodeImage N SIZEOF_SECTOR_HEADER (fnode_bytes f')))
                                 NextLink N OFFSET_OF_NEXT (le32 (Next h0)))
                     else snd (WriteSector st2 FnodeImage N SIZEOF_SECTOR_HEADER (fnode_bytes f')))
                    StatusMark Sector OFFSET_OF_VERSION
                    (version_word (hd1\<lparr>Status := FFS_SECTOR_HEADER_FREE_DIRTY\<rparr>)))"
        by (cases "Rename_copy_loop st1 Sector N (DataOffset hd1) (SectorLength h0 - DataOffset h0) None")
           (auto simp: unf f'_def split: if_splits sum.splits)
      from Rename_copy_loop_journal [OF cp] obtain ops where
        t2: "FlashSectionTable st2 = FlashSectionTable st1"
        and j2: "journal st2 = journal st1 @ ops" "fnode_writes ops = []"
        by blast
      have v2: "GetFlashSectionEntry st2 N = Some (k, rel)"
        using vN t2 t1 ti by (simp add: GetFlashSectionEntry_def)
      have fit2: "sectors_fit (FlashSectionTable st2)"
        using fit t2 t1 by simp
      have lf: "length (Filename f) = 65" "length (Padding f) = 2"
        using length_fnode_of [of "window (media st p) 24 80"] by (simp_all add: f)
      have lf': "length (Filename f') = 65" "length (Padding f') = 2"
        using lf len by (simp_all add: f'_def strcpy_def)
      define st3 where "st3 = snd (WriteSector st2 FnodeImage N SIZEOF_SECTOR_HEADER (fnode_bytes f'))"
      have j3: "journal st3 = journal st2 @ [OpWrite FnodeImage N SIZEOF_SECTOR_HEADER (fnode_bytes f')]"
        using WriteSector_valid [OF v2, of "fnode_bytes f'" SIZEOF_SECTOR_HEADER FnodeImage]
              fit_size [OF fit2 v2] lf'
        by (simp add: st3_def)
      define st4 where "st4 = (if Next h0 \<noteq> NO_SECTOR
                               then snd (WriteSector st3 NextLink N OFFSET_OF_NEXT (le32 (Next h0)))
                               else st3)"
      obtain d4 where j4: "journal st4 = journal st3 @ d4" "fnode_writes d4 = []"
        using journal_WriteSector_ex [of st3 NextLink N OFFSET_OF_NEXT "le32 (Next h0)"]
        by (cases "Next h0 \<noteq> NO_SECTOR") (auto simp: st4_def)
      have fin': "st' = snd (WriteSector st4 StatusMark Sector OFFSET_OF_VERSION
                                (version_word (hd1\<lparr>Status := FFS_SECTOR_HEADER_FREE_DIRTY\<rparr>)))"
        unfolding fin st4_def st3_def ..
      obtain d5 where j5: "journal st' = journal st4 @ d5" "fnode_writes d5 = []"
        using journal_WriteSector_ex [of st4 StatusMark Sector OFFSET_OF_VERSION
                "version_word (hd1\<lparr>Status := FFS_SECTOR_HEADER_FREE_DIRTY\<rparr>)"]
              fin' by auto
      have "journal st' = journal st @ OpErase N # OpWrite HeaderImage N 0 (header_bytes hd1)
                            # (ops @ [OpWrite FnodeImage N SIZEOF_SECTOR_HEADER (fnode_bytes f')] @ d4 @ d5)"
        by (simp add: j5 j4 j3 j2 j1)
      moreover have "fnode_writes (ops @ [OpWrite FnodeImage N SIZEOF_SECTOR_HEADER (fnode_bytes f')] @ d4 @ d5)
                       = [(N, f')]"
        by (simp add: j2 j4 j5 fnode_of_fnode_bytes [OF lf'])
      moreover have "Status hd1 = FFS_SECTOR_HEADER_INUSE_FILENODE"
        by (simp add: hd1_def fresh_header_def)
      moreover have "Count f' = Count f"
        by (simp add: f'_def)
      ultimately show ?thesis
        using L1 f'_def by blast
    qed
  qed
qed

theorem C7_rename_keeps_Count_witness:
  "sectors_fit (FlashSectionTable linked_file)
   \<and> (\<exists>st'. FFSRename 10 linked_file name_a name_b = Inr (0, st')
         \<and> (\<exists>f Sector N hdr rest f'.
               LocateFileNode 10 linked_file name_a = Inr (Some (f, Sector))
               \<and> journal st' = journal linked_file
                     @ OpErase N # OpWrite HeaderImage N 0 (header_bytes hdr) # rest
               \<and> Status hdr = FFS_SECTOR_HEADER_INUSE_FILENODE
               \<and> fnode_writes rest = [(N, f')]
               \<and> f' = f\<lparr>Filename := strcpy (Filename f) name_b\<rparr>
               \<and> Count f' = Count f))"
proof -
  have fit: "sectors_fit (FlashSectionTable linked_file)"
    by (simp add: linked_file_def mount_def fit_small_table)
  have "\<exists>st'. FFSRename 10 linked_file name_a name_b = Inr (0, st')"
    by (simp add: ffs_eval)
  then obtain st' where run: "FFSRename 10 linked_file name_a name_b = Inr (0, st')"
    by blast
  from C7_rename_keeps_Count [OF fit run] fit run show ?thesis
    by simp
qed

text \<open>
  C7 as stated fails: the volume \<open>two_files\<close> has the file \<^verbatim>\<open>"a"\<close> with
  \<^verbatim>\<open>Count\<close> 1 in sector 0. After \<^verbatim>\<open>Rename("a", "b")\<close> the file node written, to
  sector 2, has \<^verbatim>\<open>Count\<close> 1, not 2.
\<close>

theorem C7_renamed_file_has_the_old_Count:
  "\<exists>f st' f'. LocateFileNode 10 two_files name_a = Inr (Some (f, 0)) \<and> Count f = 1
     \<and> FFSRename 10 two_files name_a name_b = Inr (0, st')
     \<and> fnode_writes (journal st') = [(2, f')]
     \<and> LocateFileNode 10 st' name_b = Inr (Some (f', 2))
     \<and> Count f' = 1 \<and> Count f' \<noteq> Count f + 1"
  by (simp add: ffs_eval)

section \<open>The effect of Rename on the flash\<close>

lemma GetFlashSectionEntry_loop_inj:
  "GetFlashSectionEntry_loop tbl k0 a = Some q \<Longrightarrow> GetFlashSectionEntry_loop tbl k0 b = Some q \<Longrightarrow> a = b"
proof (induction tbl k0 a arbitrary: b rule: GetFlashSectionEntry_loop.induct)
  case (1 k Sector)
  then show ?case by simp
next
  case (2 s rest k0 a)
  obtain k r where q: "q = (k, r)" by (cases q)
  have dev: "Device s \<noteq> 0xff"
    using "2.prems"(1) by (auto split: if_splits)
  show ?case
  proof (cases "a < FFS_FLASH_SECTION.Count s")
    case True
    with "2.prems"(1) dev q have kr: "k = k0" "r = a" by auto
    show ?thesis
    proof (cases "b < FFS_FLASH_SECTION.Count s")
      case True
      with "2.prems"(2) dev q kr show ?thesis by auto
    next
      case False
      with "2.prems"(2) dev q obtain s' rest' where r: "rest = s' # rest'"
        and "GetFlashSectionEntry_loop rest (Suc k0) (b - FFS_FLASH_SECTION.Count s') = Some (k, r)"
        by (cases rest) auto
      from GetFlashSectionEntry_loop_index [OF this(2)] kr show ?thesis by simp
    qed
  next
    case False
    with "2.prems"(1) dev q obtain s' rest' where r: "rest = s' # rest'"
      and ra: "GetFlashSectionEntry_loop rest (Suc k0) (a - FFS_FLASH_SECTION.Count s') = Some q"
      by (cases rest) auto
    show ?thesis
    proof (cases "b < FFS_FLASH_SECTION.Count s")
      case True
      with "2.prems"(2) dev q have "k = k0" by auto
      with GetFlashSectionEntry_loop_index [OF ra [unfolded q]] show ?thesis by simp
    next
      case bf: False
      with "2.prems"(2) dev r
      have rb: "GetFlashSectionEntry_loop rest (Suc k0) (b - FFS_FLASH_SECTION.Count s') = Some q"
        by simp
      from "2.IH" [OF _ _ r ra rb] dev False
      have "a - FFS_FLASH_SECTION.Count s' = b - FFS_FLASH_SECTION.Count s'" by simp
      then show ?thesis by simp
    qed
  qed
qed

lemma GetFlashSectionEntry_inj:
  "GetFlashSectionEntry st a = Some q \<Longrightarrow> GetFlashSectionEntry st b = Some q \<Longrightarrow> a = b"
  unfolding GetFlashSectionEntry_def by (rule GetFlashSectionEntry_loop_inj)


lemma unat_size_bound: "unat (w :: ulong) < 4294967296"
  using unsigned_less [of w, where 'a = nat] by simp

lemma sint_small: "unat (w :: ulong) < 2147483648 \<Longrightarrow> sint w = int (unat w)"
proof -
  assume a: "unat w < 2147483648"
  have "uint w < 2147483648"
    by (subst uint_nat) (use a in linarith)
  then have "uint w < 2 ^ 31" by simp
  moreover have "- (2 ^ 31) \<le> uint w"
    by (rule order_trans [of _ 0]) simp_all
  ultimately have "signed_take_bit 31 (uint w) = uint w"
    by (rule signed_take_bit_int_eq_self [rotated])
  then have "sint w = uint w"
    by (simp add: sint_uint)
  then show ?thesis
    by (simp only: uint_nat)
qed

lemma Rename_copy_loop_media:
  assumes "GetFlashSectionEntry st S = Some pS" "GetFlashSectionEntry st N = Some pN" "pS \<noteq> pN"
    and "unat Off + unat Len \<le> unat (SectorSize (FlashSectionTable st ! fst pS))"
    and "unat Off + unat Len \<le> unat (SectorSize (FlashSectionTable st ! fst pN))"
  shows "\<exists>st2. Rename_copy_loop st S N Off Len bufv = Inr st2
           \<and> FlashSectionTable st2 = FlashSectionTable st
           \<and> FileDescriptors st2 = FileDescriptors st
           \<and> media st2 = (media st)(pN := \<lambda>i. if unat Off \<le> i \<and> i < unat Off + unat Len
                                                 then media st pN i AND media st pS i
                                                 else media st pN i)"
  using assms
proof (induction st S N Off Len bufv rule: Rename_copy_loop.induct)
  case (1 st Sector NewSector Offset Len Buffer)
  show ?case
  proof (cases "Len = 0")
    case True
    then show ?thesis
      by (auto simp: Rename_copy_loop.simps [of st] fun_eq_iff)
  next
    case False
    define n where "n = (if Len < SIZEOF_BUFFER then Len else SIZEOF_BUFFER)"
    have n: "unat n \<le> unat Len" "unat n \<le> 100" "n \<le> Len"
      by (auto simp: n_def word_le_nat_alt word_less_nat_alt)
    have sn: "0 \<le> sint n"
      using n(2) sint_small [of n] by simp
    define bs where "bs = window (media st pS) (unat Offset) (unat n)"
    have rd: "ReadSector st Sector Offset n = (sint n, Some bs)"
      using ReadSector_window [OF "1.prems"(1) sn, of Offset] "1.prems"(4) n(1)
      by (simp add: bs_def)
    then have ri: "read_into Buffer id (ReadSector st Sector Offset n) = Some bs"
      by (simp add: read_into_def)
    define st1 where "st1 = snd (WriteSector st FileData NewSector Offset (take (unat n) bs))"
    have tk: "take (unat n) bs = bs"
      by (simp add: bs_def)
    have st1: "st1 = st\<lparr>media := (media st)(pN := nor_write (media st pN) (unat Offset) bs),
                        journal := journal st @ [OpWrite FileData NewSector Offset bs]\<rparr>"
      using WriteSector_valid [OF "1.prems"(2), of bs Offset FileData] "1.prems"(5) n
      by (simp add: st1_def tk bs_def)
    have t1: "FlashSectionTable st1 = FlashSectionTable st"
      by (simp add: st1)
    have g1: "GetFlashSectionEntry st1 Sector = Some pS" "GetFlashSectionEntry st1 NewSector = Some pN"
      using "1.prems"(1,2) t1 by (simp_all add: GetFlashSectionEntry_def)
    have ua: "unat (Offset + n) = unat Offset + unat n"
      using "1.prems"(4) n(1) unat_size_bound [of "SectorSize (FlashSectionTable st ! fst pS)"]
      by (simp add: unat_add_lem [THEN iffD1])
    have us: "unat (Len - n) = unat Len - unat n"
      using n(3) by (simp add: unat_sub)
    have b1: "unat (Offset + n) + unat (Len - n) \<le> unat (SectorSize (FlashSectionTable st1 ! fst pS))"
         "unat (Offset + n) + unat (Len - n) \<le> unat (SectorSize (FlashSectionTable st1 ! fst pN))"
      using "1.prems"(4,5) n(1) by (simp_all add: ua us t1)
    from "1.IH" [OF False n_def ri st1_def g1 "1.prems"(3) b1]
    obtain st2 where st2:
      "Rename_copy_loop st1 Sector NewSector (Offset + n) (Len - n) (Some bs) = Inr st2"
      "FlashSectionTable st2 = FlashSectionTable st1" "FileDescriptors st2 = FileDescriptors st1"
      "media st2 = (media st1)(pN := \<lambda>i. if unat (Offset + n) \<le> i \<and> i < unat (Offset + n) + unat (Len - n)
                                            then media st1 pN i AND media st1 pS i
                                            else media st1 pN i)"
      by blast
    have run: "Rename_copy_loop st Sector NewSector Offset Len Buffer = Inr st2"
      using False ri st2(1)
      by (simp add: Rename_copy_loop.simps [of st] Let_def n_def [symmetric] st1_def)
    have m1S: "media st1 pS = media st pS"
      using "1.prems"(3) by (simp add: st1)
    have m1N: "media st1 pN = nor_write (media st pN) (unat Offset) bs"
      by (simp add: st1)
    have "media st2 = (media st)(pN := \<lambda>i. if unat Offset \<le> i \<and> i < unat Offset + unat Len
                                              then media st pN i AND media st pS i
                                              else media st pN i)"
    proof -
      have "(\<lambda>i. if unat (Offset + n) \<le> i \<and> i < unat (Offset + n) + unat (Len - n)
                 then media st1 pN i AND media st1 pS i else media st1 pN i)
            = (\<lambda>i. if unat Offset \<le> i \<and> i < unat Offset + unat Len
                    then media st pN i AND media st pS i else media st pN i)"
      proof
        fix i
        show "(if unat (Offset + n) \<le> i \<and> i < unat (Offset + n) + unat (Len - n)
               then media st1 pN i AND media st1 pS i else media st1 pN i)
              = (if unat Offset \<le> i \<and> i < unat Offset + unat Len
                 then media st pN i AND media st pS i else media st pN i)"
          using n(1) by (auto simp: m1S m1N ua us nor_write_def bs_def)
      qed
      then show ?thesis
        by (simp add: st2(4) st1)
    qed
    note m = this
    have d1: "FileDescriptors st1 = FileDescriptors st"
      by (simp add: st1)
    show ?thesis
    proof (intro exI conjI)
      show "Rename_copy_loop st Sector NewSector Offset Len Buffer = Inr st2"
        by (rule run)
      show "FlashSectionTable st2 = FlashSectionTable st"
        by (simp add: st2(2) t1)
      show "FileDescriptors st2 = FileDescriptors st"
        by (simp add: st2(3) d1)
      show "media st2 = (media st)(pN := \<lambda>i. if unat Offset \<le> i \<and> i < unat Offset + unat Len
                                              then media st pN i AND media st pS i
                                              else media st pN i)"
        by (rule m)
    qed
  qed
qed


lemma header_of_window:
  "header_of (window m 0 24) =
     \<lparr>Key = rd32 (m 0) (m 1) (m 2) (m 3), Next = rd32 (m 4) (m 5) (m 6) (m 7),
      EraseCount = rd32 (m 8) (m 9) (m 10) (m 11), Version = m 12, Status = m 13,
      SectorChecksum = rd16 (m 14) (m 15),
      SectorLength = rd32 (m 16) (m 17) (m 18) (m 19),
      DataOffset = rd32 (m 20) (m 21) (m 22) (m 23)\<rparr>"
  by (simp add: header_of_def) (simp add: numeral_2_eq_2)

lemma header_at_cong:
  "(\<And>i. i < 24 \<Longrightarrow> media st' q i = media st p i) \<Longrightarrow> header_at st' q = header_at st p"
  by (simp add: header_at_def header_of_window)

lemma FindFreeSector_loop_free:
  assumes fit: "sectors_fit (FlashSectionTable st)"
    and run: "FindFreeSector_loop fuel st X var = Inr (sta, Some (N, h, k))"
  shows "\<exists>p. GetFlashSectionEntry st N = Some p \<and> fst p = k \<and> h = header_at st p \<and> \<not> inuse h"
  using run
proof (induction fuel arbitrary: X var)
  case 0
  then show ?case by simp
next
  case (Suc fuel)
  show ?case
  proof (cases "GetFlashSectionEntry st X")
    case None
    with Suc.prems show ?thesis by simp
  next
    case (Some p)
    obtain k0 rel where p: "p = (k0, rel)" by (cases p)
    note rh = ReadSector_head [OF Some fit_size [OF fit Some]]
    define hx where "hx = header_at st p"
    have ri: "read_into var header_of (ReadSector st X 0 SIZEOF_SECTOR_HEADER) = Some hx"
      by (simp add: rh read_into_def hx_def header_at_def)
    show ?thesis
    proof (cases "inuse hx")
      case True
      with Suc.prems Some p ri
      have "FindFreeSector_loop fuel st (X + 1) (Some hx) = Inr (sta, Some (N, h, k))"
        by (simp add: inuse_def)
      from Suc.IH [OF this] show ?thesis .
    next
      case False
      with Suc.prems Some p ri have "N = X" "h = hx" "k = k0"
        by (auto simp: inuse_def split: if_splits)
      with Some p False show ?thesis
        by (simp add: hx_def)
    qed
  qed
qed


lemma byte_and_ff [simp]: "(0xFF :: byte) AND x = x"
proof -
  have "(0xFF :: byte) = - 1" by simp
  then show ?thesis by (simp only: and.left_neutral)
qed

lemma erased_and [simp]: "erased i AND x = x"
  by (simp add: erased_def)

lemma header_bytes_Next:
  "i < 24 \<Longrightarrow> header_bytes (h\<lparr>Next := x\<rparr>) ! i
     = (if 4 \<le> i \<and> i < 8 then le32 x ! (i - 4) else header_bytes h ! i)"
  by (auto simp: header_bytes_def nth_append)

lemma le32_no_sector: "i < 4 \<Longrightarrow> le32 NO_SECTOR ! i = 0xFF"
proof -
  assume "i < 4"
  then consider "i = 0" | "i = 1" | "i = 2" | "i = 3" by linarith
  then show ?thesis
    by cases (simp_all add: le32_def)
qed

lemma header_bytes_fresh_Next:
  "4 \<le> i \<Longrightarrow> i < 8 \<Longrightarrow> header_bytes (fresh_header s off e sz) ! i = 0xFF"
proof -
  assume a: "4 \<le> i" "i < 8"
  then have b: "i - 4 < 4" by simp
  have "header_bytes (fresh_header s off e sz) ! i = le32 NO_SECTOR ! (i - 4)"
    using a b by (simp add: header_bytes_def fresh_header_def nth_append)
  with le32_no_sector [OF b] show ?thesis by simp
qed

lemma window_eq_bytes:
  assumes "length bs = len" "\<And>i. i < len \<Longrightarrow> m (off + i) = bs ! i"
  shows "window m off len = bs"
  using assms by (intro nth_equalityI) simp_all


lemma length_version_word [simp]: "length (version_word h) = 4"
  by (simp add: version_word_eq)

lemma Rename_effect:
  assumes fit: "sectors_fit (FlashSectionTable st)"
    and L1: "LocateFileNode fuel st name = Inr (Some (f, S))"
    and wf: "file_wf k st S"
    and run: "FFSRename fuel st name new_name = Inr (0, st')"
  shows "\<exists>pS pN N sta h kk.
           GetFlashSectionEntry st S = Some pS \<and> GetFlashSectionEntry st N = Some pN \<and> pN \<noteq> pS
           \<and> FindFreeSector_loop fuel (Initialize st) 0 (Some (header_at st pS)) = Inr (sta, Some (N, h, kk))
           \<and> \<not> inuse (header_at st pN)
           \<and> SectorSize (FlashSectionTable st ! fst pN) = SectorSize (FlashSectionTable st ! fst pS)
           \<and> LocateFileNode fuel st new_name = Inr None
           \<and> f = fnode_at st pS
           \<and> FlashSectionTable st' = FlashSectionTable st
           \<and> FileDescriptors st' = FileDescriptors st
           \<and> (\<forall>q. q \<noteq> pN \<longrightarrow> q \<noteq> pS \<longrightarrow> media st' q = media st q)
           \<and> (\<forall>i. i < 12 \<or> 16 \<le> i \<longrightarrow> media st' pS i = media st pS i)
           \<and> media st' pS 13 = 0
           \<and> header_at st' pN =
                 (fresh_header FFS_SECTOR_HEADER_INUSE_FILENODE (SIZEOF_SECTOR_HEADER + SIZEOF_FILE_NODE)
                    (EraseCount h) (SectorLength (header_at st pS)))\<lparr>Next := Next (header_at st pS)\<rparr>
           \<and> fnode_at st' pN = f\<lparr>Filename := strcpy (Filename f) new_name\<rparr>
           \<and> (\<forall>i. 104 \<le> i \<and> i < unat (SectorLength (header_at st pS))
                  \<longrightarrow> media st' pN i = media st pS i)"
proof -
  define sti where "sti = Initialize st"
  have ti: "FlashSectionTable sti = FlashSectionTable st" and mi: "media sti = media st"
    and di: "FileDescriptors sti = FileDescriptors st"
    by (simp_all add: sti_def Initialize_def)
  have fiti: "sectors_fit (FlashSectionTable sti)"
    using fit ti by simp
  have L: "LocateFileNode fuel sti nm = LocateFileNode fuel st nm" for nm
    by (simp add: sti_def)
  from run L1 have L2: "LocateFileNode fuel st new_name = Inr None"
    by (cases "LocateFileNode fuel st new_name")
       (auto simp: FFSRename_def sti_def [symmetric] L Let_def split: option.splits)
  have len: "length new_name \<le> FFS_MAX_FILENAME_LENGTH"
    using L2 by (auto simp: LocateFileNode_def split: if_splits)
  from L1 have "LocateFileNode_loop fuel st (StringToUpperCase name) 0 None None = Inr (Some (f, S))"
    by (auto simp: LocateFileNode_def split: if_splits)
  from LocateFileNode_loop_found [OF fit this] obtain pS where
    pS: "GetFlashSectionEntry st S = Some pS" and f: "f = fnode_at st pS"
    by (auto simp: fnode_at_def)
  have pSi: "GetFlashSectionEntry sti S = Some pS"
    using pS ti by (simp add: GetFlashSectionEntry_def)
  define h0 where "h0 = header_at st pS"
  have h0: "Key h0 = FFS_SECTOR_HEADER_KEY" "Status h0 = FFS_SECTOR_HEADER_INUSE_FILENODE"
    "DataOffset h0 = 104" "SectorLength h0 = SectorSize (FlashSectionTable st ! fst pS)"
    using wf pS by (simp_all add: file_wf_def h0_def)
  have szS: "104 \<le> unat (SectorSize (FlashSectionTable st ! fst pS))"
    using fit_size [OF fit pS] .
  have rh: "read_into None header_of (ReadSector sti S 0 SIZEOF_SECTOR_HEADER) = Some h0"
    using ReadSector_head [OF pSi fit_size [OF fiti pSi]]
    by (simp add: read_into_def h0_def header_at_def mi)
  note unf = FFSRename_def sti_def [symmetric] L L1 L2 rh Let_def
  show ?thesis
  proof (cases "FindFreeSector_loop fuel sti 0 (Some h0)")
    case (Inl e)
    with run show ?thesis
      by (simp add: unf AllocateSectorWithFilenode_result [OF fiti])
  next
    case (Inr x)
    obtain sta found where x: "x = (sta, found)" by (cases x)
    note fr = FindFreeSector_loop_frame [OF Inr [unfolded x]]
    show ?thesis
    proof (cases found)
      case None
      with run Inr x show ?thesis
        by (simp add: unf AllocateSectorWithFilenode_result [OF fiti])
    next
      case (Some y)
      obtain N h kk where y: "y = (N, h, kk)" by (cases y)
      have ff: "FindFreeSector_loop fuel sti 0 (Some h0) = Inr (sta, Some (N, h, kk))"
        using Inr x Some y by simp
      from FindFreeSector_loop_free [OF fiti ff] obtain pN where
        pNi: "GetFlashSectionEntry sti N = Some pN" and kk: "fst pN = kk"
        and hN: "h = header_at sti pN" "\<not> inuse h"
        by blast
      have pN: "GetFlashSectionEntry st N = Some pN"
        using pNi ti by (simp add: GetFlashSectionEntry_def)
      have hN': "header_at sti pN = header_at st pN"
        by (simp add: header_at_def mi)
      have ne: "pN \<noteq> pS"
        using hN h0 hN' by (auto simp: inuse_def h0_def)
      have szN: "104 \<le> unat (SectorSize (FlashSectionTable st ! fst pN))"
        using fit_size [OF fit pN] .
      define hd1 where "hd1 = fresh_header FFS_SECTOR_HEADER_INUSE_FILENODE
                                (SIZEOF_SECTOR_HEADER + SIZEOF_FILE_NODE)
                                (EraseCount h) (SectorSize (FlashSectionTable sti ! kk))"
      define st1 where "st1 = allocated sta N pN hd1"
      have al: "AllocateSectorWithFilenode fuel sti (Some h0) = Inr (0, st1, Some (N, hd1))"
        using ff pNi
        by (simp add: AllocateSectorWithFilenode_result [OF fiti] hd1_def st1_def)
      have t1: "FlashSectionTable st1 = FlashSectionTable st"
        using fr ti by (simp add: st1_def allocated_def)
      have d1: "FileDescriptors st1 = FileDescriptors st"
        using fr di by (simp add: st1_def allocated_def)
      have m1: "media st1 = (media st)(pN := nor_write erased 0 (header_bytes hd1))"
        using fr mi by (simp add: st1_def allocated_def)
      define f' where "f' = f\<lparr>Filename := strcpy (Filename f) new_name\<rparr>"
      define Len where "Len = SectorLength h0 - DataOffset h0"
      have hd1f: "SectorLength hd1 = SectorSize (FlashSectionTable st ! fst pN)" "DataOffset hd1 = 104"
        by (simp_all add: hd1_def fresh_header_def ti kk)
      from run al len have same: "Len = SectorLength hd1 - DataOffset hd1"
        by (auto simp: unf Len_def split: if_splits sum.splits)
      have le104: "(104 :: ulong) \<le> SectorSize (FlashSectionTable st ! fst pS)"
                   "(104 :: ulong) \<le> SectorSize (FlashSectionTable st ! fst pN)"
        using szS szN by (simp_all add: word_le_nat_alt)
      have uLen: "unat Len = unat (SectorSize (FlashSectionTable st ! fst pS)) - 104"
        using le104(1) by (simp add: Len_def h0 unat_sub)
      have uLen': "unat Len = unat (SectorSize (FlashSectionTable st ! fst pN)) - 104"
        using le104(2) by (simp add: same hd1f unat_sub)
      have sizes: "SectorSize (FlashSectionTable st ! fst pN) = SectorSize (FlashSectionTable st ! fst pS)"
        using uLen uLen' szS szN by (simp add: word_unat_eq_iff)
      have g1: "GetFlashSectionEntry st1 S = Some pS" "GetFlashSectionEntry st1 N = Some pN"
        using pS pN t1 by (simp_all add: GetFlashSectionEntry_def)
      have b1: "unat (104 :: ulong) + unat Len \<le> unat (SectorSize (FlashSectionTable st1 ! fst pS))"
               "unat (104 :: ulong) + unat Len \<le> unat (SectorSize (FlashSectionTable st1 ! fst pN))"
        using szS szN uLen uLen' by (simp_all add: t1)
      from Rename_copy_loop_media [OF g1 ne [symmetric] b1, of None] obtain st2 where
        cp: "Rename_copy_loop st1 S N 104 Len None = Inr st2"
        and t2: "FlashSectionTable st2 = FlashSectionTable st1"
        and d2: "FileDescriptors st2 = FileDescriptors st1"
        and m2: "media st2 = (media st1)(pN := \<lambda>i. if unat (104 :: ulong) \<le> i \<and> i < unat (104 :: ulong) + unat Len
                                                   then media st1 pN i AND media st1 pS i
                                                   else media st1 pN i)"
        by blast
      from run al len cp same have
        fin: "st' = snd (WriteSector
                    (if Next h0 \<noteq> NO_SECTOR
                     then snd (WriteSector (snd (WriteSector st2 FnodeImage N SIZEOF_SECTOR_HEADER (fnode_bytes f')))
                                 NextLink N OFFSET_OF_NEXT (le32 (Next h0)))
                     else snd (WriteSector st2 FnodeImage N SIZEOF_SECTOR_HEADER (fnode_bytes f')))
                    StatusMark S OFFSET_OF_VERSION
                    (version_word (hd1\<lparr>Status := FFS_SECTOR_HEADER_FREE_DIRTY\<rparr>)))"
        by (auto simp: unf f'_def Len_def hd1f split: if_splits sum.splits)
      have lf: "length (Filename f) = 65" "length (Padding f) = 2"
        using length_fnode_of [of "window (media st pS) 24 80"] by (simp_all add: f fnode_at_def)
      have lf': "length (Filename f') = 65" "length (Padding f') = 2"
        using lf len by (simp_all add: f'_def strcpy_def)
      have v2: "GetFlashSectionEntry st2 N = Some pN" "GetFlashSectionEntry st2 S = Some pS"
        using pN pS t2 t1 by (simp_all add: GetFlashSectionEntry_def)
      define st3 where "st3 = snd (WriteSector st2 FnodeImage N SIZEOF_SECTOR_HEADER (fnode_bytes f'))"
      have st3: "st3 = st2\<lparr>media := (media st2)(pN := nor_write (media st2 pN) 24 (fnode_bytes f')),
                           journal := journal st2 @ [OpWrite FnodeImage N SIZEOF_SECTOR_HEADER (fnode_bytes f')]\<rparr>"
        using WriteSector_valid [OF v2(1), of "fnode_bytes f'" SIZEOF_SECTOR_HEADER FnodeImage]
              szN lf'
        by (simp add: st3_def t2 t1)
      define st4 where "st4 = (if Next h0 \<noteq> NO_SECTOR
                               then snd (WriteSector st3 NextLink N OFFSET_OF_NEXT (le32 (Next h0)))
                               else st3)"
      have v3: "GetFlashSectionEntry st3 N = Some pN"
        using v2(1) by (simp add: st3 GetFlashSectionEntry_def)
      have w4: "snd (WriteSector st3 NextLink N OFFSET_OF_NEXT (le32 (Next h0)))
                  = st3\<lparr>media := (media st3)(pN := nor_write (media st3 pN) 4 (le32 (Next h0))),
                         journal := journal st3 @ [OpWrite NextLink N OFFSET_OF_NEXT (le32 (Next h0))]\<rparr>"
        using WriteSector_valid [OF v3, of "le32 (Next h0)" OFFSET_OF_NEXT NextLink] szN
        by (simp add: st3 t2 t1)
      have st4e: "st4 = (if Next h0 \<noteq> NO_SECTOR
                         then st3\<lparr>media := (media st3)(pN := nor_write (media st3 pN) 4 (le32 (Next h0))),
                                 journal := journal st3 @ [OpWrite NextLink N OFFSET_OF_NEXT (le32 (Next h0))]\<rparr>
                         else st3)"
        unfolding st4_def w4 ..
      have t3: "FlashSectionTable st3 = FlashSectionTable st" "FileDescriptors st3 = FileDescriptors st"
        by (simp_all add: st3 t2 t1 d2 d1)
      have t4: "FlashSectionTable st4 = FlashSectionTable st" "FileDescriptors st4 = FileDescriptors st"
        by (simp_all add: st4e t3)
      have m4: "media st4 = (media st2)(pN := if Next h0 \<noteq> NO_SECTOR
                    then nor_write (nor_write (media st2 pN) 24 (fnode_bytes f')) 4 (le32 (Next h0))
                    else nor_write (media st2 pN) 24 (fnode_bytes f'))"
        by (simp add: st4e) (simp add: st3)
      have v4: "GetFlashSectionEntry st4 S = Some pS"
        using pS t4 by (simp add: GetFlashSectionEntry_def)
      have fin': "st' = snd (WriteSector st4 StatusMark S OFFSET_OF_VERSION
                                (version_word (hd1\<lparr>Status := FFS_SECTOR_HEADER_FREE_DIRTY\<rparr>)))"
        unfolding fin st4_def st3_def ..
      have st5: "st' = st4\<lparr>media := (media st4)(pS := nor_write (media st4 pS) 12
                                 (version_word (hd1\<lparr>Status := FFS_SECTOR_HEADER_FREE_DIRTY\<rparr>))),
                           journal := journal st4 @ [OpWrite StatusMark S OFFSET_OF_VERSION
                                 (version_word (hd1\<lparr>Status := FFS_SECTOR_HEADER_FREE_DIRTY\<rparr>))]\<rparr>"
        using WriteSector_valid [OF v4, of "version_word (hd1\<lparr>Status := FFS_SECTOR_HEADER_FREE_DIRTY\<rparr>)"
                OFFSET_OF_VERSION StatusMark] szS
        by (simp add: fin' t4)
      (* The content of the flash after the call. *)
      have mS: "media st' pS = nor_write (media st pS) 12
                   (version_word (hd1\<lparr>Status := FFS_SECTOR_HEADER_FREE_DIRTY\<rparr>))"
        using ne by (simp add: st5 m4 m2 m1)
      define base where "base = (\<lambda>i. if 104 \<le> i \<and> i < 104 + unat Len
                                       then nor_write erased 0 (header_bytes hd1) i AND media st pS i
                                       else nor_write erased 0 (header_bytes hd1) i)"
      have m1N: "media st1 pN = nor_write erased 0 (header_bytes hd1)"
        and m1S: "media st1 pS = media st pS"
        using ne by (simp_all add: m1)
      have mN2: "media st2 pN = base"
        by (auto simp: m2 m1N m1S base_def fun_eq_iff)
      have mN: "media st' pN = (if Next h0 \<noteq> NO_SECTOR
                    then nor_write (nor_write base 24 (fnode_bytes f')) 4 (le32 (Next h0))
                    else nor_write base 24 (fnode_bytes f'))"
        using ne by (simp add: st5 m4 mN2)
      have other: "media st' q = media st q" if "q \<noteq> pN" "q \<noteq> pS" for q
        using that by (simp add: st5 m4 m2 m1)
      have S1: "media st' pS i = media st pS i" if "i < 12 \<or> 16 \<le> i" for i
        using that by (auto simp: mS nor_write_def)
      have S2: "media st' pS 13 = 0"
        by (simp add: mS nor_write_def version_word_eq)
      have lfb: "length (fnode_bytes f') = 80"
        using lf' by simp
      have N1: "media st' pN i = header_bytes (hd1\<lparr>Next := Next h0\<rparr>) ! i" if "i < 24" for i
      proof (cases "4 \<le> i \<and> i < 8")
        case True
        then have "header_bytes hd1 ! i = 0xFF"
          by (simp add: hd1_def header_bytes_fresh_Next)
        moreover have "le32 NO_SECTOR ! (i - 4) = 0xFF"
          using True by (intro le32_no_sector) auto
        ultimately show ?thesis
          using True that
          by (auto simp: mN base_def nor_write_def lf' header_bytes_Next)
      next
        case False
        with that show ?thesis
          by (auto simp: mN base_def nor_write_def lf' header_bytes_Next)
      qed
      have N2: "media st' pN (24 + i) = fnode_bytes f' ! i" if "i < 80" for i
        using that by (auto simp: mN base_def nor_write_def lf')
      have N3: "media st' pN i = media st pS i" if "104 \<le> i" "i < unat (SectorLength h0)" for i
        using that uLen szS by (auto simp: mN base_def nor_write_def lf' h0)
      have "window (media st' pN) 0 24 = header_bytes (hd1\<lparr>Next := Next h0\<rparr>)"
        by (rule window_eq_bytes) (simp_all add: N1)
      then have HN: "header_at st' pN = hd1\<lparr>Next := Next h0\<rparr>"
        by (simp add: header_at_def)
      have "window (media st' pN) 24 80 = fnode_bytes f'"
        by (rule window_eq_bytes) (simp_all add: N2 lf')
      then have FN: "fnode_at st' pN = f'"
        by (simp add: fnode_at_def fnode_of_fnode_bytes [OF lf'])
      have hd1': "hd1 = fresh_header FFS_SECTOR_HEADER_INUSE_FILENODE
                          (SIZEOF_SECTOR_HEADER + SIZEOF_FILE_NODE) (EraseCount h) (SectorLength h0)"
        by (simp add: hd1_def h0 sizes [symmetric] ti kk)
      have T: "FlashSectionTable st' = FlashSectionTable st" "FileDescriptors st' = FileDescriptors st"
        by (simp_all add: st5 t4)
      show ?thesis
        apply (rule exI [of _ pS])
        apply (rule exI [of _ pN])
        apply (rule exI [of _ N])
        apply (rule exI [of _ sta])
        apply (rule exI [of _ h])
        apply (rule exI [of _ kk])
        apply (intro conjI)
        subgoal by (rule pS)
        subgoal by (rule pN)
        subgoal by (rule ne)
        subgoal using ff by (simp add: sti_def h0_def)
        subgoal using hN hN' by simp
        subgoal by (rule sizes)
        subgoal by (rule L2)
        subgoal by (rule f)
        subgoal by (rule T)
        subgoal by (rule T)
        subgoal using other by blast
        subgoal using S1 by blast
        subgoal by (rule S2)
        subgoal using HN hd1' by (simp add: h0_def)
        subgoal using FN by (simp add: f'_def)
        subgoal using N3 by (simp add: h0_def)
        done
    qed
  qed
qed


lemma LocateFileNode_loop_step:
  assumes fit: "sectors_fit (FlashSectionTable st)"
  shows "LocateFileNode_loop (Suc fuel) st C X v1 v2 =
     (case GetFlashSectionEntry st X of
        None \<Rightarrow> Inr None
      | Some p \<Rightarrow>
          if Status (header_at st p) = FFS_SECTOR_HEADER_INUSE_FILENODE then
            (if FFS_MAX_FILENAME_LENGTH < length (cstr (Filename (fnode_at st p))) then Inl StringOverrun
             else if StringToUpperCase (cstr (Filename (fnode_at st p))) = C
             then Inr (Some (fnode_at st p, X))
             else LocateFileNode_loop fuel st C (X + 1) (Some (header_at st p)) (Some (fnode_at st p)))
          else LocateFileNode_loop fuel st C (X + 1) (Some (header_at st p)) v2)"
proof (cases "GetFlashSectionEntry st X")
  case None
  then show ?thesis by (simp add: ValidSector_iff)
next
  case (Some p)
  note sz = fit_size [OF fit Some]
  show ?thesis
    using Some
    by (simp add: ValidSector_iff ReadSector_head [OF Some sz] ReadSector_fnode [OF Some sz]
          read_into_def header_at_def fnode_at_def)
qed

lemma scan_none:
  assumes fit: "sectors_fit (FlashSectionTable st)"
    and tbl: "FlashSectionTable st' = FlashSectionTable st"
    and ref: "LocateFileNode_loop fuel st C1 X v1 v2 = Inr None"
    and sec: "\<And>T p. GetFlashSectionEntry st T = Some p \<Longrightarrow>
                 Status (header_at st' p) = FFS_SECTOR_HEADER_INUSE_FILENODE \<Longrightarrow>
                 StringToUpperCase (cstr (Filename (fnode_at st' p))) \<noteq> C2
                 \<and> (length (cstr (Filename (fnode_at st' p))) \<le> FFS_MAX_FILENAME_LENGTH
                    \<or> Status (header_at st p) = FFS_SECTOR_HEADER_INUSE_FILENODE
                       \<and> fnode_at st' p = fnode_at st p)"
  shows "LocateFileNode_loop fuel st' C2 X w1 w2 = Inr None"
  using ref
proof (induction fuel arbitrary: X v1 v2 w1 w2)
  case 0
  then show ?case by simp
next
  case (Suc fuel)
  have fit': "sectors_fit (FlashSectionTable st')"
    using fit tbl by simp
  have g: "GetFlashSectionEntry st' X = GetFlashSectionEntry st X"
    using tbl by (simp add: GetFlashSectionEntry_def)
  show ?case
  proof (cases "GetFlashSectionEntry st X")
    case None
    then show ?thesis
      by (simp add: LocateFileNode_loop_step [OF fit'] g del: LocateFileNode_loop.simps)
  next
    case (Some p)
    from Suc.prems Some obtain a b where
      nxt: "LocateFileNode_loop fuel st C1 (X + 1) a b = Inr None"
      and ok: "Status (header_at st p) = FFS_SECTOR_HEADER_INUSE_FILENODE \<Longrightarrow>
               length (cstr (Filename (fnode_at st p))) \<le> FFS_MAX_FILENAME_LENGTH"
      by (auto simp: LocateFileNode_loop_step [OF fit] simp del: LocateFileNode_loop.simps split: if_splits)
    note ih = Suc.IH [OF nxt]
    show ?thesis
    proof (cases "Status (header_at st' p) = FFS_SECTOR_HEADER_INUSE_FILENODE")
      case False
      with Some show ?thesis
        by (simp add: LocateFileNode_loop_step [OF fit'] g ih del: LocateFileNode_loop.simps)
    next
      case True
      from sec [OF Some True] ok have
        "StringToUpperCase (cstr (Filename (fnode_at st' p))) \<noteq> C2"
        "length (cstr (Filename (fnode_at st' p))) \<le> FFS_MAX_FILENAME_LENGTH"
        by auto
      with Some True show ?thesis
        by (simp add: LocateFileNode_loop_step [OF fit'] g ih del: LocateFileNode_loop.simps)
    qed
  qed
qed

lemma scan_new:
  assumes fit: "sectors_fit (FlashSectionTable st)"
    and tbl: "FlashSectionTable st' = FlashSectionTable st"
    and ref: "LocateFileNode_loop fuel st C X v1 v2 = Inr None"
    and ff: "FindFreeSector_loop fuel2 st X var = Inr (sta, Some (N, h, kk))"
    and pN: "GetFlashSectionEntry st N = Some pN"
    and atN: "Status (header_at st' pN) = FFS_SECTOR_HEADER_INUSE_FILENODE"
      "length (cstr (Filename (fnode_at st' pN))) \<le> FFS_MAX_FILENAME_LENGTH"
      "StringToUpperCase (cstr (Filename (fnode_at st' pN))) = C"
    and other: "\<And>T p. GetFlashSectionEntry st T = Some p \<Longrightarrow> T \<noteq> N \<Longrightarrow>
                 Status (header_at st' p) = FFS_SECTOR_HEADER_INUSE_FILENODE \<Longrightarrow>
                 Status (header_at st p) = FFS_SECTOR_HEADER_INUSE_FILENODE
                 \<and> fnode_at st' p = fnode_at st p"
  shows "LocateFileNode_loop fuel st' C X w1 w2 = Inr (Some (fnode_at st' pN, N))"
  using ref ff
proof (induction fuel arbitrary: X fuel2 var v1 v2 w1 w2)
  case 0
  then show ?case by simp
next
  case (Suc fuel)
  have fit': "sectors_fit (FlashSectionTable st')"
    using fit tbl by simp
  have g: "GetFlashSectionEntry st' T = GetFlashSectionEntry st T" for T
    using tbl by (simp add: GetFlashSectionEntry_def)
  obtain f2 where f2: "fuel2 = Suc f2"
    using Suc.prems(2) by (cases fuel2) auto
  show ?case
  proof (cases "GetFlashSectionEntry st X")
    case None
    with Suc.prems(2) show ?thesis by (simp add: f2)
  next
    case (Some p)
    show ?thesis
    proof (cases "X = N")
      case True
      with Some pN have "p = pN" by simp
      with Some True atN show ?thesis
        by (simp add: LocateFileNode_loop_step [OF fit'] g del: LocateFileNode_loop.simps)
    next
      case False
      obtain k0 rel where p: "p = (k0, rel)" by (cases p)
      note rh = ReadSector_head [OF Some fit_size [OF fit Some]]
      have "FindFreeSector_loop f2 st (X + 1) (Some (header_at st p)) = Inr (sta, Some (N, h, kk))"
        using Suc.prems(2) Some False p
        by (auto simp: f2 rh read_into_def header_at_def split: if_splits)
      note ff' = this
      from Suc.prems(1) Some obtain a b where
        nxt: "LocateFileNode_loop fuel st C (X + 1) a b = Inr None"
        and ok: "Status (header_at st p) = FFS_SECTOR_HEADER_INUSE_FILENODE \<Longrightarrow>
                 length (cstr (Filename (fnode_at st p))) \<le> FFS_MAX_FILENAME_LENGTH
                 \<and> StringToUpperCase (cstr (Filename (fnode_at st p))) \<noteq> C"
        by (auto simp: LocateFileNode_loop_step [OF fit] simp del: LocateFileNode_loop.simps split: if_splits)
      note ih = Suc.IH [OF nxt ff']
      show ?thesis
      proof (cases "Status (header_at st' p) = FFS_SECTOR_HEADER_INUSE_FILENODE")
        case nf: False
        with Some show ?thesis
          by (simp add: LocateFileNode_loop_step [OF fit'] g ih del: LocateFileNode_loop.simps)
      next
        case True
        from other [OF Some False True] ok have
          "length (cstr (Filename (fnode_at st' p))) \<le> FFS_MAX_FILENAME_LENGTH"
          "StringToUpperCase (cstr (Filename (fnode_at st' p))) \<noteq> C"
          by auto
        with Some True show ?thesis
          by (simp add: LocateFileNode_loop_step [OF fit'] g ih del: LocateFileNode_loop.simps)
      qed
    qed
  qed
qed


lemma chain_inuse_cong:
  assumes "FlashSectionTable s1 = FlashSectionTable st" "media s1 = media st"
  shows "chain_inuse k s1 T = chain_inuse k st T"
proof (induction k arbitrary: T)
  case 0
  show ?case by simp
next
  case (Suc k)
  have g: "GetFlashSectionEntry s1 T = GetFlashSectionEntry st T"
    using assms(1) by (simp add: GetFlashSectionEntry_def)
  have h: "header_at s1 p = header_at st p" for p
    using assms(2) by (simp add: header_at_def)
  show ?case
    by (cases "GetFlashSectionEntry st T") (simp_all add: g h Suc.IH)
qed

lemma chain_read_same:
  assumes tbl: "FlashSectionTable st' = FlashSectionTable st"
    and nos: "GetFlashSectionEntry st NO_SECTOR = None"
    and ag: "\<And>T p. GetFlashSectionEntry st T = Some p \<Longrightarrow>
                Key (header_at st p) = FFS_SECTOR_HEADER_KEY \<Longrightarrow>
                Status (header_at st p) = FFS_SECTOR_HEADER_INUSE \<Longrightarrow> media st' p = media st p"
    and ch: "chain_inuse k st T"
  shows "ReadSector st' T off len = ReadSector st T off len"
proof -
  have g: "GetFlashSectionEntry st' T = GetFlashSectionEntry st T"
    using tbl by (simp add: GetFlashSectionEntry_def)
  show ?thesis
  proof (cases "GetFlashSectionEntry st T")
    case None
    then show ?thesis by (simp add: ReadSector_unfold g)
  next
    case (Some p)
    with nos have "T \<noteq> NO_SECTOR" by auto
    with ch Some have "Key (header_at st p) = FFS_SECTOR_HEADER_KEY"
      "Status (header_at st p) = FFS_SECTOR_HEADER_INUSE"
      by (cases k; simp)+
    from ag [OF Some this] have "media st' p = media st p" .
    with Some show ?thesis
      by (cases p) (simp add: ReadSector_unfold g tbl)
  qed
qed

lemma chain_next:
  assumes fit: "sectors_fit (FlashSectionTable st)"
    and nos: "GetFlashSectionEntry st NO_SECTOR = None"
    and ch: "chain_inuse k st T"
    and rd: "ReadSector st T 0 SIZEOF_SECTOR_HEADER = (rc, Some hb)"
  shows "\<exists>k'. chain_inuse k' st (Next (header_of hb))"
proof (cases "GetFlashSectionEntry st T")
  case None
  with rd show ?thesis by (simp add: ReadSector_unfold)
next
  case (Some p)
  with nos have ne: "T \<noteq> NO_SECTOR" by auto
  from rd ReadSector_head [OF Some fit_size [OF fit Some]]
  have hb: "header_of hb = header_at st p"
    by (simp add: header_at_def)
  from ch ne Some obtain k' where "k = Suc k'" "chain_inuse k' st (Next (header_at st p))"
    by (cases k) auto
  with hb show ?thesis by auto
qed

lemma LocatePosition_loop_agree:
  assumes fit: "sectors_fit (FlashSectionTable st)"
    and tbl: "FlashSectionTable st' = FlashSectionTable st"
    and nos: "GetFlashSectionEntry st NO_SECTOR = None"
    and ag: "\<And>T p. GetFlashSectionEntry st T = Some p \<Longrightarrow>
                Key (header_at st p) = FFS_SECTOR_HEADER_KEY \<Longrightarrow>
                Status (header_at st p) = FFS_SECTOR_HEADER_INUSE \<Longrightarrow> media st' p = media st p"
    and ch: "\<exists>k. chain_inuse k st T"
  shows "LocatePosition_loop fuel st' Pos T Cnt = LocatePosition_loop fuel st Pos T Cnt"
  using ch
proof (induction fuel arbitrary: T Cnt)
  case 0
  show ?case by simp
next
  case (Suc fuel)
  from Suc.prems obtain k where k: "chain_inuse k st T" by blast
  have rs: "ReadSector st' T 0 SIZEOF_SECTOR_HEADER = ReadSector st T 0 SIZEOF_SECTOR_HEADER"
    by (rule chain_read_same [OF tbl nos ag k])
  obtain rc r where r: "ReadSector st T 0 SIZEOF_SECTOR_HEADER = (rc, r)"
    by (cases "ReadSector st T 0 SIZEOF_SECTOR_HEADER")
  show ?case
  proof (cases r)
    case None
    with r rs show ?thesis by simp
  next
    case (Some hb)
    from chain_next [OF fit nos k r [unfolded Some]]
    have "\<exists>k'. chain_inuse k' st (Next (header_of hb))" .
    from Suc.IH [OF this] r rs Some show ?thesis
      by (simp add: Let_def)
  qed
qed

lemma read_result_simps [simp]:
  "read_result (Inl e) = Inl e" "read_result (Inr (rc, st, out)) = Inr (rc, out)"
  by (simp_all add: read_result_def)

lemma read_loop_Suc:
  "n \<noteq> 0 \<Longrightarrow>
   read_loop (Suc fuel) st fd buf bufpos n Sec h Off Tot =
     (case (case snd (ReadSector st Sec Off (if n < SectorLength h - Off then n else SectorLength h - Off)) of
              None \<Rightarrow> Inr buf
            | Some bs \<Rightarrow> store buf bufpos bs) of
        Inl e \<Rightarrow> Inl e
      | Inr buf1 \<Rightarrow>
          if n - (if n < SectorLength h - Off then n else SectorLength h - Off) = 0
          then Inr (sint (Tot + (if n < SectorLength h - Off then n else SectorLength h - Off)),
                    advance_read st fd (if n < SectorLength h - Off then n else SectorLength h - Off), buf1)
          else
            (case ReadSector (advance_read st fd (if n < SectorLength h - Off then n else SectorLength h - Off))
                    (Next h) 0 SIZEOF_SECTOR_HEADER of
               (rc, r) \<Rightarrow>
                 if rc < 0
                 then Inr (rc, advance_read st fd (if n < SectorLength h - Off then n else SectorLength h - Off), buf1)
                 else
                   (case r of
                      None \<Rightarrow> Inl UninitialisedRead
                    | Some hb \<Rightarrow>
                        read_loop fuel
                          (advance_read st fd (if n < SectorLength h - Off then n else SectorLength h - Off))
                          fd buf1
                          (bufpos + unat (if n < SectorLength h - Off then n else SectorLength h - Off))
                          (n - (if n < SectorLength h - Off then n else SectorLength h - Off)) (Next h)
                          (header_of hb) (DataOffset (header_of hb))
                          (Tot + (if n < SectorLength h - Off then n else SectorLength h - Off)))))"
  unfolding read_loop.simps Let_def by (simp only: if_False)

lemma read_loop_agree:
  assumes fit: "sectors_fit (FlashSectionTable st)"
    and tbl: "FlashSectionTable st' = FlashSectionTable st"
    and nos: "GetFlashSectionEntry st NO_SECTOR = None"
    and ag: "\<And>T p. GetFlashSectionEntry st T = Some p \<Longrightarrow>
                Key (header_at st p) = FFS_SECTOR_HEADER_KEY \<Longrightarrow>
                Status (header_at st p) = FFS_SECTOR_HEADER_INUSE \<Longrightarrow> media st' p = media st p"
    and s1: "FlashSectionTable s1 = FlashSectionTable st" "media s1 = media st"
            "FlashSectionTable s1' = FlashSectionTable st'" "media s1' = media st'"
    and hdr: "SectorLength h' = SectorLength h" "Next h' = Next h"
    and ch: "\<exists>k. chain_inuse k st (Next h)"
    and rd: "\<And>len. len \<le> SectorLength h - Off \<Longrightarrow>
               ReadSector st' Sec' Off len = ReadSector st Sec Off len"
  shows "read_result (read_loop fuel s1' fd buf bufpos n Sec' h' Off Tot)
         = read_result (read_loop fuel s1 fd buf bufpos n Sec h Off Tot)"
  using s1 hdr ch rd
proof (induction fuel arbitrary: s1 s1' buf bufpos n Sec Sec' h h' Off Tot)
  case 0
  show ?case by simp
next
  case (Suc fuel)
  note RS = ReadSector_cong [OF Suc.prems(1,2)] ReadSector_cong [OF Suc.prems(3,4)]
  show ?case
  proof (cases "n = 0")
    case True
    then show ?thesis by simp
  next
    case False
    define RemLen where "RemLen = (if n < SectorLength h - Off then n else SectorLength h - Off)"
    have rl: "RemLen \<le> SectorLength h - Off"
      by (auto simp: RemLen_def)
    have data: "ReadSector s1' Sec' Off RemLen = ReadSector s1 Sec Off RemLen"
      using Suc.prems(8) [OF rl] by (simp add: RS)
    define got where "got = (case snd (ReadSector s1 Sec Off RemLen) of
                               None \<Rightarrow> Inr buf | Some bs \<Rightarrow> store buf bufpos bs)"
    define a1 where "a1 = advance_read s1 fd RemLen"
    define a1' where "a1' = advance_read s1' fd RemLen"
    define tail where "tail = (\<lambda>a buf1.
        (case ReadSector a (Next h) 0 SIZEOF_SECTOR_HEADER of
           (rc, r) \<Rightarrow>
             if rc < 0 then Inr (rc, a, buf1)
             else
               (case r of
                  None \<Rightarrow> Inl UninitialisedRead
                | Some hb \<Rightarrow>
                    read_loop fuel a fd buf1 (bufpos + unat RemLen) (n - RemLen) (Next h)
                      (header_of hb) (DataOffset (header_of hb)) (Tot + RemLen))))"
    have L: "read_loop (Suc fuel) s1 fd buf bufpos n Sec h Off Tot =
               (case got of Inl e \<Rightarrow> Inl e
                | Inr buf1 \<Rightarrow> if n - RemLen = 0 then Inr (sint (Tot + RemLen), a1, buf1)
                               else tail a1 buf1)"
      unfolding read_loop_Suc [OF False] RemLen_def got_def a1_def tail_def ..
    have L': "read_loop (Suc fuel) s1' fd buf bufpos n Sec' h' Off Tot =
               (case got of Inl e \<Rightarrow> Inl e
                | Inr buf1 \<Rightarrow> if n - RemLen = 0 then Inr (sint (Tot + RemLen), a1', buf1)
                               else tail a1' buf1)"
      unfolding read_loop_Suc [OF False] Suc.prems(5,6) RemLen_def [symmetric] data
        got_def a1'_def tail_def ..
    have ta: "FlashSectionTable a1 = FlashSectionTable st" "media a1 = media st"
             "FlashSectionTable a1' = FlashSectionTable st'" "media a1' = media st'"
      using Suc.prems(1-4)
      by (simp_all add: a1_def a1'_def advance_read_def set_descriptor_def Let_def)
    note RA = ReadSector_cong [OF ta(1,2)] ReadSector_cong [OF ta(3,4)]
    from Suc.prems(7) obtain k where k: "chain_inuse k st (Next h)" by blast
    have nx: "ReadSector a1' (Next h) 0 SIZEOF_SECTOR_HEADER = ReadSector a1 (Next h) 0 SIZEOF_SECTOR_HEADER"
      using chain_read_same [OF tbl nos ag k] by (simp add: RA)
    have T: "read_result (tail a1' buf1)
             = read_result (tail a1 buf1)" for buf1
    proof -
      obtain rc r where r: "ReadSector a1 (Next h) 0 SIZEOF_SECTOR_HEADER = (rc, r)"
        by (cases "ReadSector a1 (Next h) 0 SIZEOF_SECTOR_HEADER")
      show ?thesis
      proof (cases r)
        case None
        then show ?thesis
          using r nx by (simp add: tail_def)
      next
        case (Some hb)
        have r': "ReadSector st (Next h) 0 SIZEOF_SECTOR_HEADER = (rc, Some hb)"
          using r Some by (simp add: RA)
        from chain_next [OF fit nos k r']
        have ch': "\<exists>k'. chain_inuse k' st (Next (header_of hb))" .
        have rd': "ReadSector st' (Next h) (DataOffset (header_of hb)) len
                     = ReadSector st (Next h) (DataOffset (header_of hb)) len" for len
          by (rule chain_read_same [OF tbl nos ag k])
        note ih = Suc.IH [OF ta refl refl ch' rd']
        show ?thesis
          using r nx Some by (simp add: tail_def ih)
      qed
    qed
    show ?thesis
      unfolding L L' using T by (cases got) simp_all
  qed
qed


lemma GetDescriptor_eq:
  "GetDescriptor s =
     (if InUse (FileDescriptors s 0) = 0 then (0, set_descriptor s 0 (zero_descriptor\<lparr>InUse := 1\<rparr>))
      else if InUse (FileDescriptors s 1) = 0 then (1, set_descriptor s 1 (zero_descriptor\<lparr>InUse := 1\<rparr>))
      else (FFS_RC_TOO_MANY_OPEN_FILES, s))"
  by (simp add: GetDescriptor_def numeral_2_eq_2)

lemma GetDescriptor_cases:
  obtains fd sd where "GetDescriptor s = (fd, sd)"
    "FlashSectionTable sd = FlashSectionTable s" "media sd = media s"
    "fd = FFS_RC_TOO_MANY_OPEN_FILES \<and> sd = s
     \<or> (fd = 0 \<or> fd = 1) \<and> FileDescriptors sd (nat fd) = zero_descriptor\<lparr>InUse := 1\<rparr>"
  by (cases "InUse (FileDescriptors s 0) = 0"; cases "InUse (FileDescriptors s 1) = 0")
     (auto simp: GetDescriptor_eq set_descriptor_def)

lemma GetDescriptor_fd_cong:
  "FileDescriptors s' = FileDescriptors s \<Longrightarrow> fst (GetDescriptor s') = fst (GetDescriptor s)"
  by (simp add: GetDescriptor_eq)

lemma LocateFileNode_cong:
  assumes "FlashSectionTable s1 = FlashSectionTable st" "media s1 = media st"
  shows "LocateFileNode fuel s1 name = LocateFileNode fuel st name"
  by (simp add: LocateFileNode_def LocateFileNode_loop_cong [OF assms])

lemma LocatePosition_loop_cong:
  assumes "FlashSectionTable s1 = FlashSectionTable st" "media s1 = media st"
  shows "LocatePosition_loop fuel s1 Pos T Cnt = LocatePosition_loop fuel st Pos T Cnt"
proof (induction fuel arbitrary: T Cnt)
  case 0
  show ?case by simp
next
  case (Suc fuel)
  show ?case
    unfolding LocatePosition_loop.simps ReadSector_cong [OF assms] Suc.IH ..
qed

lemma open_read_found:
  assumes L: "LocateFileNode fuel st name = Inr (Some (f, S))" and ne: "S \<noteq> NO_SECTOR"
    and gd: "GetDescriptor (Initialize st) = (fd, sd)"
  shows "open_read fuel st name buf n =
           (if fd < 0 then Inr (fd, buf)
            else read_result
                   (FFSRead fuel
                      (set_descriptor sd (nat fd)
                         ((FileDescriptors sd (nat fd))\<lparr>Fnode := f, FnodeSector := S, Flags := 0\<rparr>))
                      fd buf n))"
proof -
  obtain fd0 sd0 where g0: "GetDescriptor (Initialize st) = (fd0, sd0)"
    "FlashSectionTable sd0 = FlashSectionTable (Initialize st)" "media sd0 = media (Initialize st)"
    by (rule GetDescriptor_cases)
  with gd have e: "fd0 = fd" "sd0 = sd" by simp_all
  have "LocateFileNode fuel sd name = LocateFileNode fuel (Initialize st) name"
    using g0(2,3) e by (intro LocateFileNode_cong) simp_all
  then have L': "LocateFileNode fuel sd name = Inr (Some (f, S))"
    using L by simp
  show ?thesis
    using ne by (simp add: open_read_def FFSOpen_def gd L' Let_def)
qed

lemma FFSRead_at_zero:
  assumes fd: "fd = 0 \<or> fd = 1"
    and d: "InUse (FileDescriptors so (nat fd)) \<noteq> 0" "Position (FileDescriptors so (nat fd)) = 0"
      "FnodeSector (FileDescriptors so (nat fd)) = S0"
      "FileSize (Fnode (FileDescriptors so (nat fd))) = sz"
  shows "read_result (FFSRead fuel so fd buf n) =
           (if sz = 0 then Inr (FFS_RC_INVALID_FILE_POSITION, buf)
            else
              (case LocatePosition_loop fuel so 0 S0 0 of
                 Inl e \<Rightarrow> Inl e
               | Inr (rc, None) \<Rightarrow> Inr (rc, buf)
               | Inr (rc, Some (T, h, off)) \<Rightarrow>
                   read_result (read_loop fuel so (nat fd) buf 0
                                  (if word_of_int n > sz then sz else word_of_int n) T h off 0)))"
proof -
  have sc: "SanityCheck so fd = Inr True"
    using fd d(1) by (auto simp: SanityCheck_def)
  show ?thesis
  proof (cases "sz = 0")
    case True
    then show ?thesis
      using d by (simp add: FFSRead_def sc Let_def)
  next
    case False
    then have "\<not> sz \<le> 0" by (simp add: word_le_nat_alt unat_gt_0 not_le)
    then show ?thesis
      using False d
      by (cases "LocatePosition_loop fuel so 0 S0 0")
         (auto simp: FFSRead_def sc Let_def LocatePosition_def split: option.splits)
  qed
qed

lemma LocatePosition_loop_on_chain:
  assumes fit: "sectors_fit (FlashSectionTable st)"
    and nos: "GetFlashSectionEntry st NO_SECTOR = None"
    and ch: "\<exists>k. chain_inuse k st T0"
    and run: "LocatePosition_loop fuel st Pos T0 Cnt = Inr (rc, Some (T, h, off))"
  shows "(\<exists>k. chain_inuse k st T) \<and> (\<exists>k. chain_inuse k st (Next h))"
  using ch run
proof (induction fuel arbitrary: T0 Cnt)
  case 0
  then show ?case by simp
next
  case (Suc fuel)
  from Suc.prems(1) obtain k where k: "chain_inuse k st T0" by blast
  obtain rc0 r where r: "ReadSector st T0 0 SIZEOF_SECTOR_HEADER = (rc0, r)"
    by (cases "ReadSector st T0 0 SIZEOF_SECTOR_HEADER")
  show ?case
  proof (cases r)
    case None
    with r Suc.prems(2) show ?thesis by (simp split: if_splits)
  next
    case (Some hb)
    from chain_next [OF fit nos k r [unfolded Some]]
    have nx: "\<exists>k'. chain_inuse k' st (Next (header_of hb))" .
    show ?thesis
    proof (cases "Pos < Cnt + (SectorLength (header_of hb) - DataOffset (header_of hb))")
      case True
      with r Some Suc.prems(2) have "T = T0" "h = header_of hb"
        by (simp_all add: Let_def split: if_splits)
      with nx Suc.prems(1) show ?thesis by simp
    next
      case False
      with r Some Suc.prems(2) have
        "LocatePosition_loop fuel st Pos (Next (header_of hb))
           (Cnt + (SectorLength (header_of hb) - DataOffset (header_of hb))) = Inr (rc, Some (T, h, off))"
        by (simp add: Let_def split: if_splits)
      from Suc.IH [OF nx this] show ?thesis .
    qed
  qed
qed


lemma Status_header_at: "Status (header_at st p) = media st p 13"
  by (simp add: header_at_def header_of_window)

lemma cstr_strcpy: "0 \<notin> set src \<Longrightarrow> cstr (strcpy dst src) = src"
proof -
  assume a: "0 \<notin> set src"
  have "takeWhile (\<lambda>b. b \<noteq> 0) (src @ rest) = src @ takeWhile (\<lambda>b. b \<noteq> 0) rest" for rest
    using a by (intro takeWhile_append2) auto
  then show ?thesis
    by (simp add: cstr_def strcpy_def)
qed

lemma scan_distinct:
  assumes fit: "sectors_fit (FlashSectionTable st)"
    and a: "LocateFileNode_loop fuel st C X v1 v2 = Inr (Some (f, S))"
    and b: "LocateFileNode_loop fuel2 st C' X w1 w2 = Inr None"
  shows "C \<noteq> C'"
  using a b
proof (induction fuel arbitrary: X fuel2 v1 v2 w1 w2)
  case 0
  then show ?case by simp
next
  case (Suc fuel)
  show ?case
  proof (cases "GetFlashSectionEntry st X")
    case None
    with Suc.prems(1) show ?thesis
      by (simp add: LocateFileNode_loop_step [OF fit] del: LocateFileNode_loop.simps)
  next
    case (Some p)
    obtain f2 where f2: "fuel2 = Suc f2"
      using Suc.prems(2) by (cases fuel2) auto
    show ?thesis
    proof (cases "Status (header_at st p) = FFS_SECTOR_HEADER_INUSE_FILENODE
                    \<and> StringToUpperCase (cstr (Filename (fnode_at st p))) = C")
      case True
      with Suc.prems(2) Some show ?thesis
        by (auto simp: f2 LocateFileNode_loop_step [OF fit] simp del: LocateFileNode_loop.simps
                 split: if_splits)
    next
      case False
      with Suc.prems(1) Some obtain a1 a2 where
        n1: "LocateFileNode_loop fuel st C (X + 1) a1 a2 = Inr (Some (f, S))"
        by (auto simp: LocateFileNode_loop_step [OF fit] simp del: LocateFileNode_loop.simps
                 split: if_splits)
      from Suc.prems(2) Some obtain b1 b2 where
        n2: "LocateFileNode_loop f2 st C' (X + 1) b1 b2 = Inr None"
        by (auto simp: f2 LocateFileNode_loop_step [OF fit] simp del: LocateFileNode_loop.simps
                 split: if_splits)
      from Suc.IH [OF n1 n2] show ?thesis .
    qed
  qed
qed


lemma LocateFileNode_found_loop:
  "LocateFileNode fuel st name = Inr r \<Longrightarrow>
     length name \<le> FFS_MAX_FILENAME_LENGTH
     \<and> LocateFileNode_loop fuel st (StringToUpperCase name) 0 None None = Inr r"
  by (auto simp: LocateFileNode_def split: if_splits)


section \<open>Rename keeps the content and removes the old name (C6)\<close>

text \<open>
  C6, amended. The volume has sectors that hold at least a header and a file node, and no
  sector with the number \<^verbatim>\<open>0xFFFFFFFF\<close>. The file \<open>old_name\<close> is found in sector
  \<open>S\<close>, it is well formed (\<open>file_wf\<close>), and no other head sector carries its name.
  Then after a successful \<^verbatim>\<open>Rename(old_name, new_name)\<close>, \<open>new_name\<close> being a C string,
  \<^verbatim>\<open>open(new_name, FFS_RDONLY)\<close> followed by \<^verbatim>\<open>read\<close> returns what
  \<^verbatim>\<open>open(old_name, FFS_RDONLY)\<close> followed by the same \<^verbatim>\<open>read\<close> returned before
  the call: the same return code and the same bytes. And \<^verbatim>\<open>open\<close> of the old name
  without \<^verbatim>\<open>FFS_CREATE\<close> returns \<^verbatim>\<open>FFS_RC_FILE_DOES_NOT_EXIST\<close>, or
  \<^verbatim>\<open>FFS_RC_TOO_MANY_OPEN_FILES\<close> when no descriptor is free.
\<close>

theorem C6_rename_keeps_content:
  assumes fit: "sectors_fit (FlashSectionTable st)"
    and nos: "\<not> ValidSector st NO_SECTOR"
    and L1: "LocateFileNode fuel st old_name = Inr (Some (f, S))"
    and wf: "file_wf k st S"
    and uniq: "\<And>T. T \<noteq> S \<Longrightarrow> name_at st T \<noteq> Some (StringToUpperCase old_name)"
    and cs: "0 \<notin> set new_name"
    and run: "FFSRename fuel st old_name new_name = Inr (0, st')"
  shows "open_read fuel st' new_name buf n = open_read fuel st old_name buf n
         \<and> (flags AND FFS_CREATE = 0 \<longrightarrow>
              (\<exists>st''. FFSOpen fuel st' old_name flags perm =
                        Inr (if fst (GetDescriptor (Initialize st')) < 0
                             then FFS_RC_TOO_MANY_OPEN_FILES
                             else FFS_RC_FILE_DOES_NOT_EXIST, st'')))"
proof -
  from Rename_effect [OF fit L1 wf run] obtain pS pN N sta h kk where
    pS: "GetFlashSectionEntry st S = Some pS" and pN: "GetFlashSectionEntry st N = Some pN"
    and ne: "pN \<noteq> pS"
    and ff: "FindFreeSector_loop fuel (Initialize st) 0 (Some (header_at st pS)) = Inr (sta, Some (N, h, kk))"
    and free: "\<not> inuse (header_at st pN)"
    and sizes: "SectorSize (FlashSectionTable st ! fst pN) = SectorSize (FlashSectionTable st ! fst pS)"
    and L2: "LocateFileNode fuel st new_name = Inr None"
    and f: "f = fnode_at st pS"
    and tbl: "FlashSectionTable st' = FlashSectionTable st"
    and dsc: "FileDescriptors st' = FileDescriptors st"
    and other: "\<forall>q. q \<noteq> pN \<longrightarrow> q \<noteq> pS \<longrightarrow> media st' q = media st q"
    and oldS: "\<forall>i. i < 12 \<or> 16 \<le> i \<longrightarrow> media st' pS i = media st pS i" "media st' pS 13 = 0"
    and HN: "header_at st' pN =
               (fresh_header FFS_SECTOR_HEADER_INUSE_FILENODE (SIZEOF_SECTOR_HEADER + SIZEOF_FILE_NODE)
                  (EraseCount h) (SectorLength (header_at st pS)))\<lparr>Next := Next (header_at st pS)\<rparr>"
    and FN: "fnode_at st' pN = f\<lparr>Filename := strcpy (Filename f) new_name\<rparr>"
    and data: "\<forall>i. 104 \<le> i \<and> i < unat (SectorLength (header_at st pS))
                 \<longrightarrow> media st' pN i = media st pS i"
    by blast
  define h0 where "h0 = header_at st pS"
  define hN where "hN = header_at st' pN"
  define f' where "f' = f\<lparr>Filename := strcpy (Filename f) new_name\<rparr>"
  have nos': "GetFlashSectionEntry st NO_SECTOR = None"
    using nos by (cases "GetFlashSectionEntry st NO_SECTOR") (auto simp: ValidSector_iff)
  have h0: "Key h0 = FFS_SECTOR_HEADER_KEY" "Status h0 = FFS_SECTOR_HEADER_INUSE_FILENODE"
    "DataOffset h0 = 104" "SectorLength h0 = SectorSize (FlashSectionTable st ! fst pS)"
    and ch: "chain_inuse k st (Next h0)"
    using wf pS by (simp_all add: file_wf_def h0_def)
  have hNf: "Status hN = FFS_SECTOR_HEADER_INUSE_FILENODE" "SectorLength hN = SectorLength h0"
    "DataOffset hN = 104" "Next hN = Next h0"
    by (simp_all add: hN_def HN fresh_header_def h0_def)
  have g: "GetFlashSectionEntry st' T = GetFlashSectionEntry st T" for T
    using tbl by (simp add: GetFlashSectionEntry_def)
  have SN: "S \<noteq> NO_SECTOR" "N \<noteq> NO_SECTOR"
    using pS pN nos' by auto
  from LocateFileNode_found_loop [OF L1] have lo: "length old_name \<le> FFS_MAX_FILENAME_LENGTH"
    and L1l: "LocateFileNode_loop fuel st (StringToUpperCase old_name) 0 None None = Inr (Some (f, S))"
    by simp_all
  from LocateFileNode_found_loop [OF L2] have ln: "length new_name \<le> FFS_MAX_FILENAME_LENGTH"
    and L2l: "LocateFileNode_loop fuel st (StringToUpperCase new_name) 0 None None = Inr None"
    by simp_all
  have names: "StringToUpperCase old_name \<noteq> StringToUpperCase new_name"
    by (rule scan_distinct [OF fit L1l L2l])
  have nameN: "cstr (Filename (fnode_at st' pN)) = new_name"
    by (simp add: FN cstr_strcpy [OF cs])
  (* Sectors other than the two head sectors are as they were. *)
  have other': "media st' q = media st q" if "q \<noteq> pN" "q \<noteq> pS" for q
    using other that by blast
  have same: "header_at st' p = header_at st p \<and> fnode_at st' p = fnode_at st p"
    if "p \<noteq> pN" "p \<noteq> pS" for p
    using other' [OF that] by (simp add: header_at_def fnode_at_def)
  have stS: "Status (header_at st' pS) \<noteq> FFS_SECTOR_HEADER_INUSE_FILENODE"
    by (simp add: Status_header_at oldS)
  (* The scan for the new name stops at the new head sector. *)
  define sti where "sti = Initialize st"
  have ti: "FlashSectionTable sti = FlashSectionTable st" "media sti = media st"
    by (simp_all add: sti_def Initialize_def)
  have hi: "header_at sti p = header_at st p" "fnode_at sti p = fnode_at st p" for p
    by (simp_all add: header_at_def fnode_at_def ti)
  have gi: "GetFlashSectionEntry sti T = GetFlashSectionEntry st T" for T
    using ti by (simp add: GetFlashSectionEntry_def)
  have "LocateFileNode_loop fuel st' (StringToUpperCase new_name) 0 None None
          = Inr (Some (fnode_at st' pN, N))"
  proof (rule scan_new [where st = sti])
    show "sectors_fit (FlashSectionTable sti)" using fit ti by simp
    show "FlashSectionTable st' = FlashSectionTable sti" using tbl ti by simp
    show "LocateFileNode_loop fuel sti (StringToUpperCase new_name) 0 None None = Inr None"
      using L2l by (simp add: LocateFileNode_loop_cong [OF ti])
    show "FindFreeSector_loop fuel sti 0 (Some (header_at st pS)) = Inr (sta, Some (N, h, kk))"
      using ff by (simp add: sti_def)
    show "GetFlashSectionEntry sti N = Some pN" using pN by (simp add: gi)
    show "Status (header_at st' pN) = FFS_SECTOR_HEADER_INUSE_FILENODE"
      using hNf by (simp add: hN_def)
    show "length (cstr (Filename (fnode_at st' pN))) \<le> FFS_MAX_FILENAME_LENGTH"
      using ln by (simp add: nameN)
    show "StringToUpperCase (cstr (Filename (fnode_at st' pN))) = StringToUpperCase new_name"
      by (simp add: nameN)
  next
    fix T p
    assume a: "GetFlashSectionEntry sti T = Some p" "T \<noteq> N"
      "Status (header_at st' p) = FFS_SECTOR_HEADER_INUSE_FILENODE"
    have "p \<noteq> pN"
      using a(1,2) pN GetFlashSectionEntry_inj [of st T pN N] by (auto simp: gi)
    moreover have "p \<noteq> pS"
      using a(3) stS by auto
    ultimately show "Status (header_at sti p) = FFS_SECTOR_HEADER_INUSE_FILENODE
                     \<and> fnode_at st' p = fnode_at sti p"
      using same [of p] a(3) by (simp add: hi)
  qed
  then have Lnew: "LocateFileNode fuel st' new_name = Inr (Some (f', N))"
    using ln by (simp add: LocateFileNode_def FN f'_def)
  (* The scan for the old name finds nothing. *)
  have "LocateFileNode_loop fuel st' (StringToUpperCase old_name) 0 None None = Inr None"
  proof (rule scan_none [OF fit tbl L2l])
    fix T p
    assume a: "GetFlashSectionEntry st T = Some p"
      "Status (header_at st' p) = FFS_SECTOR_HEADER_INUSE_FILENODE"
    have nS: "p \<noteq> pS" using a(2) stS by auto
    show "StringToUpperCase (cstr (Filename (fnode_at st' p))) \<noteq> StringToUpperCase old_name
          \<and> (length (cstr (Filename (fnode_at st' p))) \<le> FFS_MAX_FILENAME_LENGTH
             \<or> Status (header_at st p) = FFS_SECTOR_HEADER_INUSE_FILENODE
                \<and> fnode_at st' p = fnode_at st p)"
    proof (cases "p = pN")
      case True
      then show ?thesis
        using names ln by (simp add: nameN)
    next
      case False
      have "T \<noteq> S" using a(1) pS nS by auto
      from uniq [OF this] a same [OF False nS] show ?thesis
        by (simp add: name_at_def)
    qed
  qed
  then have Lold: "LocateFileNode fuel st' old_name = Inr None"
    using lo by (simp add: LocateFileNode_def)
  (* Opening the old name. *)
  have B: "\<exists>st''. FFSOpen fuel st' old_name flags perm =
                     Inr (if fst (GetDescriptor (Initialize st')) < 0
                          then FFS_RC_TOO_MANY_OPEN_FILES
                          else FFS_RC_FILE_DOES_NOT_EXIST, st'')"
    if nc: "flags AND FFS_CREATE = 0"
  proof -
    obtain fd sd where gd: "GetDescriptor (Initialize st') = (fd, sd)"
      "FlashSectionTable sd = FlashSectionTable (Initialize st')" "media sd = media (Initialize st')"
      "fd = FFS_RC_TOO_MANY_OPEN_FILES \<and> sd = Initialize st'
       \<or> (fd = 0 \<or> fd = 1) \<and> FileDescriptors sd (nat fd) = zero_descriptor\<lparr>InUse := 1\<rparr>"
      by (rule GetDescriptor_cases)
    have "LocateFileNode fuel sd old_name = LocateFileNode fuel (Initialize st') old_name"
      using gd(2,3) by (intro LocateFileNode_cong) simp_all
    then have Ls: "LocateFileNode fuel sd old_name = Inr None"
      using Lold by simp
    from gd(4) show ?thesis
      using nc by (auto simp: FFSOpen_def gd(1) Ls Let_def)
  qed
  (* Reading the new name. *)
  have ag: "media st' p = media st p"
    if "GetFlashSectionEntry st T = Some p" "Key (header_at st p) = FFS_SECTOR_HEADER_KEY"
       "Status (header_at st p) = FFS_SECTOR_HEADER_INUSE" for T p
  proof -
    have "p \<noteq> pN" using that(2,3) free by (auto simp: inuse_def)
    moreover have "p \<noteq> pS" using that(3) h0(2) by (auto simp: h0_def)
    ultimately show ?thesis by (rule other')
  qed
  have rdN: "ReadSector st' N 0 SIZEOF_SECTOR_HEADER = (24, Some (window (media st' pN) 0 24))"
    using ReadSector_head [of st' N pN] pN fit_size [OF fit pN] by (simp add: g tbl)
  have rdS: "ReadSector st S 0 SIZEOF_SECTOR_HEADER = (24, Some (window (media st pS) 0 24))"
    using ReadSector_head [OF pS fit_size [OF fit pS]] .
  have rdD: "ReadSector st' N 104 len = ReadSector st S 104 len" for len
  proof -
    have "map (media st' pN) [104..<104 + unat len] = map (media st pS) [104..<104 + unat len]"
      if "104 + unat len \<le> unat (SectorSize (FlashSectionTable st ! fst pS))"
      using that data by (auto simp: h0_def [symmetric] h0(4))
    moreover obtain a b aa ba where c: "pS = (a, b)" "pN = (aa, ba)"
      by (cases pS; cases pN) auto
    moreover have "SectorSize (FlashSectionTable st ! aa) = SectorSize (FlashSectionTable st ! a)"
      using sizes c by simp
    ultimately show ?thesis
      using pS pN by (auto simp: ReadSector_unfold g tbl)
  qed
  have A: "open_read fuel st' new_name buf n = open_read fuel st old_name buf n"
  proof -
    obtain fd sd where gd: "GetDescriptor (Initialize st) = (fd, sd)"
      "FlashSectionTable sd = FlashSectionTable (Initialize st)" "media sd = media (Initialize st)"
      "fd = FFS_RC_TOO_MANY_OPEN_FILES \<and> sd = Initialize st
       \<or> (fd = 0 \<or> fd = 1) \<and> FileDescriptors sd (nat fd) = zero_descriptor\<lparr>InUse := 1\<rparr>"
      by (rule GetDescriptor_cases)
    obtain fd' sd' where gd': "GetDescriptor (Initialize st') = (fd', sd')"
      "FlashSectionTable sd' = FlashSectionTable (Initialize st')" "media sd' = media (Initialize st')"
      "fd' = FFS_RC_TOO_MANY_OPEN_FILES \<and> sd' = Initialize st'
       \<or> (fd' = 0 \<or> fd' = 1) \<and> FileDescriptors sd' (nat fd') = zero_descriptor\<lparr>InUse := 1\<rparr>"
      by (rule GetDescriptor_cases)
    have "fst (GetDescriptor (Initialize st')) = fst (GetDescriptor (Initialize st))"
      using dsc by (intro GetDescriptor_fd_cong) (simp add: Initialize_def)
    then have fd': "fd' = fd"
      using gd(1) gd'(1) by simp
    have tsd: "FlashSectionTable sd = FlashSectionTable st" "media sd = media st"
      "FlashSectionTable sd' = FlashSectionTable st'" "media sd' = media st'"
      using gd(2,3) gd'(2,3) by (simp_all add: Initialize_def)
    note o = open_read_found [OF L1 SN(1) gd(1)] open_read_found [OF Lnew SN(2) gd'(1)]
    show ?thesis
    proof (cases "fd < 0")
      case True
      then show ?thesis by (simp add: o fd')
    next
      case False
      with gd(4) gd'(4) fd' have fdv: "fd = 0 \<or> fd = 1"
        and z: "FileDescriptors sd (nat fd) = zero_descriptor\<lparr>InUse := 1\<rparr>"
               "FileDescriptors sd' (nat fd) = zero_descriptor\<lparr>InUse := 1\<rparr>"
        by auto
      define so where "so = set_descriptor sd (nat fd)
                        ((FileDescriptors sd (nat fd))\<lparr>Fnode := f, FnodeSector := S, Flags := 0\<rparr>)"
      define so' where "so' = set_descriptor sd' (nat fd)
                         ((FileDescriptors sd' (nat fd))\<lparr>Fnode := f', FnodeSector := N, Flags := 0\<rparr>)"
      have tso: "FlashSectionTable so = FlashSectionTable st" "media so = media st"
        "FlashSectionTable so' = FlashSectionTable st'" "media so' = media st'"
        using tsd by (simp_all add: so_def so'_def set_descriptor_def)
      have dso: "InUse (FileDescriptors so (nat fd)) \<noteq> 0" "Position (FileDescriptors so (nat fd)) = 0"
        "FnodeSector (FileDescriptors so (nat fd)) = S"
        "FileSize (Fnode (FileDescriptors so (nat fd))) = FileSize f"
        by (simp_all add: so_def set_descriptor_def z zero_descriptor_def)
      have dso': "InUse (FileDescriptors so' (nat fd)) \<noteq> 0" "Position (FileDescriptors so' (nat fd)) = 0"
        "FnodeSector (FileDescriptors so' (nat fd)) = N"
        "FileSize (Fnode (FileDescriptors so' (nat fd))) = FileSize f"
        by (simp_all add: so'_def set_descriptor_def z zero_descriptor_def f'_def)
      note R = FFSRead_at_zero [OF fdv dso, of fuel buf n] FFSRead_at_zero [OF fdv dso', of fuel buf n]
      have LP: "LocatePosition_loop fuel so 0 S 0 = LocatePosition_loop fuel st 0 S 0"
               "LocatePosition_loop fuel so' 0 N 0 = LocatePosition_loop fuel st' 0 N 0"
        by (simp_all add: LocatePosition_loop_cong [OF tso(1,2)] LocatePosition_loop_cong [OF tso(3,4)])
      have core: "(case LocatePosition_loop fuel st' 0 N 0 of
                     Inl e \<Rightarrow> Inl e
                   | Inr (rc, None) \<Rightarrow> Inr (rc, buf)
                   | Inr (rc, Some (T, h, off)) \<Rightarrow>
                       read_result (read_loop fuel so' (nat fd) buf 0 n1 T h off 0))
                = (case LocatePosition_loop fuel st 0 S 0 of
                     Inl e \<Rightarrow> Inl e
                   | Inr (rc, None) \<Rightarrow> Inr (rc, buf)
                   | Inr (rc, Some (T, h, off)) \<Rightarrow>
                       read_result (read_loop fuel so (nat fd) buf 0 n1 T h off 0))" for n1
      proof (cases fuel)
        case 0
        then show ?thesis by simp
      next
        case (Suc fu)
        have hdS: "header_of (window (media st pS) 0 24) = h0"
          and hdN: "header_of (window (media st' pN) 0 24) = hN"
          by (simp_all add: h0_def hN_def header_at_def)
        show ?thesis
        proof (cases "(0 :: ulong) < SectorLength h0 - 104")
          case True
          have "read_result (read_loop fuel so' (nat fd) buf 0 n1 N hN 104 0)
                = read_result (read_loop fuel so (nat fd) buf 0 n1 S h0 104 0)"
            by (rule read_loop_agree [OF fit tbl nos' ag tso hNf(2,4) _ rdD])
               (use ch in auto)
          with True show ?thesis
            by (simp add: Suc [symmetric] LocatePosition_loop.simps(2) [of fu, folded Suc]
                  rdN rdS hdS hdN hNf h0(3) Let_def)
        next
          case False
          have "LocatePosition_loop fu st' 0 (Next h0) (SectorLength h0 - 104)
                = LocatePosition_loop fu st 0 (Next h0) (SectorLength h0 - 104)"
            by (rule LocatePosition_loop_agree [OF fit tbl nos' ag]) (use ch in auto)
          note lp = this
          have tl: "read_result (read_loop fuel so' (nat fd) buf 0 n1 T hh off 0)
                    = read_result (read_loop fuel so (nat fd) buf 0 n1 T hh off 0)"
            if "LocatePosition_loop fu st 0 (Next h0) (SectorLength h0 - 104) = Inr (rc, Some (T, hh, off))"
            for rc T hh off
          proof -
            from LocatePosition_loop_on_chain [OF fit nos' _ that] ch
            obtain k1 k2 where c: "chain_inuse k1 st T" "chain_inuse k2 st (Next hh)"
              by blast
            show ?thesis
              by (rule read_loop_agree [OF fit tbl nos' ag tso refl refl _
                         chain_read_same [OF tbl nos' ag c(1)]])
                 (use c(2) in auto)
          qed
          show ?thesis
            using False tl
            by (cases "LocatePosition_loop fu st 0 (Next h0) (SectorLength h0 - 104)")
               (auto simp: Suc [symmetric] LocatePosition_loop.simps(2) [of fu, folded Suc]
                  rdN rdS hdS hdN hNf h0(3) Let_def lp split: option.splits)
        qed
      qed
      show ?thesis
        using False core
        by (simp add: o fd' so_def [symmetric] so'_def [symmetric] R LP)
    qed
  qed
  from A B show ?thesis by blast
qed

theorem C6_rename_keeps_content_witness:
  "sectors_fit (FlashSectionTable hello_file) \<and> \<not> ValidSector hello_file NO_SECTOR
   \<and> file_wf 0 hello_file 0 \<and> 0 \<notin> set name_b
   \<and> (\<exists>f st'. LocateFileNode 10 hello_file name_a = Inr (Some (f, 0))
         \<and> FFSRename 10 hello_file name_a name_b = Inr (0, st')
         \<and> open_read 10 hello_file name_a (replicate 8 0) 8 = Inr (5, hello @ replicate 3 0)
         \<and> open_read 10 st' name_b (replicate 8 0) 8 = Inr (5, hello @ replicate 3 0)
         \<and> (\<exists>st''. FFSOpen 10 st' name_a FFS_RDWR 0 =
                      Inr (if fst (GetDescriptor (Initialize st')) < 0
                           then FFS_RC_TOO_MANY_OPEN_FILES
                           else FFS_RC_FILE_DOES_NOT_EXIST, st'')))"
proof -
  have fit: "sectors_fit (FlashSectionTable hello_file)"
    by (simp add: hello_file_def mount_def fit_small_table)
  have nos: "\<not> ValidSector hello_file NO_SECTOR"
    by (simp add: ffs_eval hello_file_def)
  have wf: "file_wf 0 hello_file 0"
    by (simp add: file_wf_def header_at_def header_of_window ffs_eval hello_file_def)
  have cs: "0 \<notin> set name_b"
    by (simp add: name_b_def)
  have none: "name_at hello_file T = None" if "T \<noteq> 0" for T
    using that
    by (simp add: name_at_def Status_header_at hello_file_def mount_def GetFlashSectionEntry_def
          small_table_def section_of_def end_of_table_def erased_def)
  then have uniq: "name_at hello_file T \<noteq> Some (StringToUpperCase name_a)" if "T \<noteq> 0" for T
    using that by simp
  have "\<exists>f. LocateFileNode 10 hello_file name_a = Inr (Some (f, 0))"
    by (simp add: ffs_eval hello_file_def)
  then obtain f where L1: "LocateFileNode 10 hello_file name_a = Inr (Some (f, 0))"
    by blast
  have "\<exists>st'. FFSRename 10 hello_file name_a name_b = Inr (0, st')"
    by (simp add: ffs_eval hello_file_def)
  then obtain st' where run: "FFSRename 10 hello_file name_a name_b = Inr (0, st')"
    by blast
  have before: "open_read 10 hello_file name_a (replicate 8 0) 8 = Inr (5, hello @ replicate 3 0)"
    by (simp add: ffs_eval open_read_def read_result_def hello_file_def)
  have nc: "FFS_RDWR AND FFS_CREATE = 0"
    by simp
  from C6_rename_keeps_content [OF fit nos L1 wf uniq cs run, of "replicate 8 0" 8 FFS_RDWR 0]
       fit nos wf cs L1 run before nc
  show ?thesis
    by auto
qed

text \<open>
  C6 as stated fails in its last part: after \<^verbatim>\<open>Rename("a", "b")\<close> on the volume
  \<open>hello_file\<close>, \<^verbatim>\<open>open("a", FFS_RDONLY, 0)\<close> returns
  \<^verbatim>\<open>FFS_RC_FILE_DOES_NOT_EXIST\<close> (-2), not \<^verbatim>\<open>FFS_RC_FILE_NOT_FOUND\<close> (-7).
\<close>

theorem C6_open_of_old_name_does_not_exist:
  "\<exists>st' st''. FFSRename 10 hello_file name_a name_b = Inr (0, st')
     \<and> FFSOpen 10 st' name_a FFS_RDONLY 0 = Inr (FFS_RC_FILE_DOES_NOT_EXIST, st'')
     \<and> FFS_RC_FILE_DOES_NOT_EXIST \<noteq> FFS_RC_FILE_NOT_FOUND"
  by (simp add: ffs_eval hello_file_def)

section \<open>The flash while a new file is written\<close>

lemma dataoff_ge: "24 \<le> dataoff j" "dataoff j \<le> 104"
  by (simp_all add: dataoff_def)

lemma sector_image_append_here:
  assumes "payload_start tbl c \<le> length D"
    and "length D + length chunk \<le> payload_start tbl (Suc c)"
    and "dataoff c \<le> sector_size tbl c"
  shows "nor_write (sector_image tbl fn D m c) (dataoff c + (length D - payload_start tbl c)) chunk
           = sector_image tbl fn (D @ chunk) m c"
proof
  fix i
  define wo where "wo = dataoff c + (length D - payload_start tbl c)"
  have o: "dataoff c \<le> wo" "wo + length chunk \<le> sector_size tbl c"
    using assms by (simp_all add: wo_def payload_size_def)
  have d: "24 \<le> dataoff c" "c = 0 \<longrightarrow> dataoff c = 104"
    by (simp_all add: dataoff_def)
  show "nor_write (sector_image tbl fn D m c) (dataoff c + (length D - payload_start tbl c)) chunk i
          = sector_image tbl fn (D @ chunk) m c i"
  proof (cases "wo \<le> i \<and> i < wo + length chunk")
    case True
    define k where "k = i - wo"
    have k: "k < length chunk" "i - wo = k"
      using True by (auto simp: k_def)
    have x: "payload_start tbl c + (i - dataoff c) = length D + k"
      using True assms(1) o(1) unfolding wo_def k_def by linarith
    from True o d have "\<not> i < 24" "\<not> (c = 0 \<and> i < 104)" "i < sector_size tbl c"
      by auto
    with True x k show ?thesis
      by (auto simp: nor_write_def sector_image_def wo_def [symmetric] nth_append)
  next
    case False
    have "payload_start tbl c + (i - dataoff c) < length D + length chunk
            \<longleftrightarrow> payload_start tbl c + (i - dataoff c) < length D"
      if "\<not> i < 24" "\<not> (c = 0 \<and> i < 104)"
    proof -
      from that d have "dataoff c \<le> i" by (auto simp: dataoff_def)
      with False assms(1) show ?thesis
        by (auto simp: wo_def)
    qed
    with False show ?thesis
      by (auto simp: nor_write_def sector_image_def wo_def [symmetric] nth_append)
  qed
qed

lemma payload_start_mono: "j \<le> k \<Longrightarrow> payload_start tbl j \<le> payload_start tbl k"
  by (induction k) (auto simp: le_Suc_eq)

lemma sector_image_append_before:
  assumes "payload_start tbl (Suc j) \<le> length D" "dataoff j \<le> sector_size tbl j"
  shows "sector_image tbl fn (D @ chunk) m j = sector_image tbl fn D m j"
proof
  fix i
  have "payload_start tbl j + (i - dataoff j) < length D"
    if "i < sector_size tbl j" "dataoff j \<le> i"
    using that assms by (simp add: payload_size_def)
  moreover have "dataoff j \<le> i" if "\<not> i < 24" "\<not> (j = 0 \<and> i < 104)"
    using that by (auto simp: dataoff_def)
  ultimately show "sector_image tbl fn (D @ chunk) m j i = sector_image tbl fn D m j i"
    by (auto simp: sector_image_def nth_append)
qed

lemma header_bytes_chain_Next:
  "4 \<le> i \<Longrightarrow> i < 8 \<Longrightarrow> header_bytes (chain_header tbl m j) ! i
     = le32 (if Suc j < m then of_nat (Suc j) else NO_SECTOR) ! (i - 4)"
  by (simp add: chain_header_def header_bytes_Next)

lemma header_bytes_chain_other:
  "i < 4 \<or> 8 \<le> i \<and> i < 24 \<Longrightarrow>
     header_bytes (chain_header tbl m j) ! i = header_bytes (chain_header tbl m' j) ! i"
  unfolding chain_header_def by (auto simp: header_bytes_Next)

lemma sector_image_link:
  assumes "Suc c = m"
  shows "nor_write (sector_image tbl fn D m c) 4 (le32 (of_nat m)) = sector_image tbl fn D (Suc m) c"
proof
  fix i
  show "nor_write (sector_image tbl fn D m c) 4 (le32 (of_nat m)) i = sector_image tbl fn D (Suc m) c i"
  proof (cases "4 \<le> i \<and> i < 8")
    case True
    then have "i - 4 < 4" by auto
    from le32_no_sector [OF this] True assms show ?thesis
      by (simp add: nor_write_def sector_image_def header_bytes_chain_Next)
  next
    case False
    have "header_bytes (chain_header tbl m c) ! i = header_bytes (chain_header tbl (Suc m) c) ! i"
      if "i < 24"
      using that False by (intro header_bytes_chain_other) auto
    with False show ?thesis
      by (auto simp: nor_write_def sector_image_def)
  qed
qed

lemma sector_image_grow_before:
  "Suc j < m \<Longrightarrow> sector_image tbl fn D (Suc m) j = sector_image tbl fn D m j"
  by (rule ext) (simp add: sector_image_def chain_header_def)

lemma sector_image_new:
  assumes "length D \<le> payload_start tbl m" "length fn = 80" "set fn \<subseteq> {0xFF}"
  shows "nor_write erased 0
           (header_bytes (fresh_header (if m = 0 then FFS_SECTOR_HEADER_INUSE_FILENODE else FFS_SECTOR_HEADER_INUSE)
                            (of_nat (dataoff m)) 0xFFFFFFFF (of_nat (sector_size tbl m))))
         = sector_image tbl fn D (Suc m) m"
proof
  fix i
  have h: "chain_header tbl (Suc m) m =
             fresh_header (if m = 0 then FFS_SECTOR_HEADER_INUSE_FILENODE else FFS_SECTOR_HEADER_INUSE)
               (of_nat (dataoff m)) 0xFFFFFFFF (of_nat (sector_size tbl m))"
    by (simp add: chain_header_def fresh_header_def)
  have f: "fn ! (i - 24) = 0xFF" if "24 \<le> i" "i < 104"
  proof -
    from that assms(2) have "fn ! (i - 24) \<in> set fn" by (intro nth_mem) simp
    with assms(3) show ?thesis by auto
  qed
  have "\<not> payload_start tbl m + (i - dataoff m) < length D"
    using assms(1) by simp
  then show "nor_write erased 0
           (header_bytes (fresh_header (if m = 0 then FFS_SECTOR_HEADER_INUSE_FILENODE else FFS_SECTOR_HEADER_INUSE)
                            (of_nat (dataoff m)) 0xFFFFFFFF (of_nat (sector_size tbl m)))) i
         = sector_image tbl fn D (Suc m) m i"
    using f by (auto simp: nor_write_def sector_image_def h erased_def)
qed

lemma sector_image_fnode:
  assumes "length fnb = 80"
  shows "nor_write (sector_image tbl (replicate 80 0xFF) D m 0) 24 fnb = sector_image tbl fnb D m 0"
  using assms by (rule_tac ext) (auto simp: nor_write_def sector_image_def)


lemma of_nat_unat_ulong: "(of_nat (unat (w :: ulong)) :: ulong) = w"
  by simp

lemma stored_cong:
  "FlashSectionTable st' = FlashSectionTable st \<Longrightarrow> media st' = media st \<Longrightarrow>
     stored st' fn D m V = stored st fn D m V"
  by (simp add: stored_def GetFlashSectionEntry_def ValidSector_def)

lemma stored_unat:
  assumes "stored st fn D m V" "j \<le> m"
  shows "unat (of_nat j :: ulong) = j"
proof -
  from assms have "j \<le> unat V" by (simp add: stored_def)
  then show ?thesis by (rule le_unat_uoi)
qed

lemma stored_valid:
  assumes "stored st fn D m V" "j < unat V"
  shows "\<exists>p. GetFlashSectionEntry st (of_nat j) = Some p
           \<and> sector_size (FlashSectionTable st) j = unat (SectorSize (FlashSectionTable st ! fst p))
           \<and> media st p = (if j < m then sector_image (FlashSectionTable st) fn D m j else erased)"
proof -
  from assms(2) have u: "unat (of_nat j :: ulong) = j"
    by (intro le_unat_uoi [of _ V]) simp
  with assms(2) have "(of_nat j :: ulong) < V"
    by (simp add: word_less_nat_alt)
  with assms(1) have "ValidSector st (of_nat j)"
    unfolding stored_def by blast
  then obtain p where p: "GetFlashSectionEntry st (of_nat j) = Some p"
    by (auto simp: ValidSector_iff)
  with assms(1) have "media st p = (if unat (of_nat j :: ulong) < m
                        then sector_image (FlashSectionTable st) fn D m (unat (of_nat j :: ulong))
                        else erased)"
    unfolding stored_def by blast
  moreover from p have "sector_size (FlashSectionTable st) j = unat (SectorSize (FlashSectionTable st ! fst p))"
    by (simp add: sector_size_def GetFlashSectionEntry_def)
  ultimately show ?thesis using p u by simp
qed

lemma stored_used:
  assumes "stored st fn D m V" "j < m"
  shows "\<exists>p. GetFlashSectionEntry st (of_nat j) = Some p
           \<and> sector_size (FlashSectionTable st) j = unat (SectorSize (FlashSectionTable st ! fst p))
           \<and> media st p = sector_image (FlashSectionTable st) fn D m j"
proof -
  from assms have "j < unat V" by (simp add: stored_def)
  from stored_valid [OF assms(1) this] assms(2) show ?thesis by simp
qed

lemma stored_free:
  assumes "stored st fn D m V" "m < unat V"
  shows "\<exists>p. GetFlashSectionEntry st (of_nat m) = Some p
           \<and> sector_size (FlashSectionTable st) m = unat (SectorSize (FlashSectionTable st ! fst p))
           \<and> media st p = erased"
  using stored_valid [OF assms] by simp

lemma stored_update:
  assumes inv: "stored st fn D m V"
    and tbl: "FlashSectionTable st' = FlashSectionTable st"
    and c: "c < m'" "m \<le> m'" "m' \<le> unat V"
    and p: "GetFlashSectionEntry st (of_nat c) = Some p"
    and med: "media st' = (media st)(p := sector_image (FlashSectionTable st) fn' D' m' c)"
    and rest: "\<And>j. j < m' \<Longrightarrow> j \<noteq> c \<Longrightarrow>
                 j < m \<and> sector_image (FlashSectionTable st) fn' D' m' j
                          = sector_image (FlashSectionTable st) fn D m j"
  shows "stored st' fn' D' m' V"
proof -
  have uc: "unat (of_nat c :: ulong) = c"
    using c by (intro le_unat_uoi [of _ V]) simp
  have "media st' q = (if unat S < m' then sector_image (FlashSectionTable st') fn' D' m' (unat S)
                       else erased)"
    if q: "GetFlashSectionEntry st' S = Some q" for S q
  proof -
    from q tbl have q': "GetFlashSectionEntry st S = Some q"
      by (simp add: GetFlashSectionEntry_def)
    with inv have old: "media st q = (if unat S < m then sector_image (FlashSectionTable st) fn D m (unat S)
                                      else erased)"
      unfolding stored_def by blast
    show ?thesis
    proof (cases "q = p")
      case True
      with q' p have "S = of_nat c" by (auto dest: GetFlashSectionEntry_inj)
      with uc c True show ?thesis by (simp add: med tbl)
    next
      case False
      have ne: "unat S \<noteq> c"
      proof
        assume "unat S = c"
        then have "S = of_nat c" by (metis of_nat_unat_ulong)
        with q' p False show False by simp
      qed
      show ?thesis
      proof (cases "unat S < m'")
        case True
        from rest [OF True ne] True old False show ?thesis by (simp add: med tbl)
      next
        case nm: False
        with c(2) have "\<not> unat S < m" by simp
        with nm old False show ?thesis by (simp add: med)
      qed
    qed
  qed
  moreover from inv tbl have "GetFlashSectionEntry st' V = None" "\<forall>S. S < V \<longrightarrow> ValidSector st' S"
    by (simp_all add: stored_def GetFlashSectionEntry_def ValidSector_def)
  ultimately show ?thesis
    using c(3) unfolding stored_def by blast
qed

lemma stored_grow:
  assumes inv: "stored st fn D (Suc c) V"
    and tbl: "FlashSectionTable st' = FlashSectionTable st"
    and c: "Suc c < unat V"
    and p: "GetFlashSectionEntry st (of_nat c) = Some p"
    and pN: "GetFlashSectionEntry st (of_nat (Suc c)) = Some pN"
    and med: "media st' = (media st)(pN := sector_image (FlashSectionTable st) fn D (Suc (Suc c)) (Suc c),
                                     p := sector_image (FlashSectionTable st) fn D (Suc (Suc c)) c)"
  shows "stored st' fn D (Suc (Suc c)) V"
proof -
  have uc: "unat (of_nat c :: ulong) = c" "unat (of_nat (Suc c) :: ulong) = Suc c"
    using c by (intro le_unat_uoi [of _ V]; simp)+
  have "media st' q = (if unat S < Suc (Suc c)
                       then sector_image (FlashSectionTable st') fn D (Suc (Suc c)) (unat S)
                       else erased)"
    if q: "GetFlashSectionEntry st' S = Some q" for S q
  proof -
    from q tbl have q': "GetFlashSectionEntry st S = Some q"
      by (simp add: GetFlashSectionEntry_def)
    with inv have old: "media st q = (if unat S < Suc c
                                      then sector_image (FlashSectionTable st) fn D (Suc c) (unat S)
                                      else erased)"
      unfolding stored_def by blast
    consider "q = p" | "q \<noteq> p" "q = pN" | "q \<noteq> p" "q \<noteq> pN" by blast
    then show ?thesis
    proof cases
      case 1
      with q' p have "S = of_nat c" by (auto dest: GetFlashSectionEntry_inj)
      with uc 1 show ?thesis by (simp add: med tbl)
    next
      case 2
      with q' pN have "S = of_nat (Suc c)" by (auto dest: GetFlashSectionEntry_inj)
      with uc 2 show ?thesis by (simp add: med tbl)
    next
      case 3
      have ne: "unat S \<noteq> c" "unat S \<noteq> Suc c"
      proof -
        show "unat S \<noteq> c"
        proof
          assume "unat S = c"
          then have "S = of_nat c" by (metis of_nat_unat_ulong)
          with q' p 3 show False by simp
        qed
        show "unat S \<noteq> Suc c"
        proof
          assume "unat S = Suc c"
          then have "S = of_nat (Suc c)" by (metis of_nat_unat_ulong)
          with q' pN 3 show False by simp
        qed
      qed
      show ?thesis
      proof (cases "unat S < c")
        case True
        then have "Suc (unat S) < Suc c" by simp
        from sector_image_grow_before [OF this] True old 3 show ?thesis
          by (simp add: med tbl)
      next
        case False
        with ne have "\<not> unat S < Suc (Suc c)" by simp
        with old 3 show ?thesis by (simp add: med)
      qed
    qed
  qed
  moreover from inv tbl have "GetFlashSectionEntry st' V = None" "\<forall>S. S < V \<longrightarrow> ValidSector st' S"
    by (simp_all add: stored_def GetFlashSectionEntry_def ValidSector_def)
  ultimately show ?thesis
    using c unfolding stored_def by (simp add: Suc_le_eq)
qed

lemma header_at_image:
  assumes "media st p = sector_image tbl fn D m j"
  shows "header_at st p = chain_header tbl m j"
proof -
  have "window (media st p) 0 24 = header_bytes (chain_header tbl m j)"
    by (rule window_eq_bytes) (simp_all add: assms sector_image_def)
  then show ?thesis
    by (simp add: header_at_def)
qed

lemma header_at_erased:
  assumes "media st p = erased"
  shows "Key (header_at st p) = 0xFFFFFFFF" "EraseCount (header_at st p) = 0xFFFFFFFF"
    "Status (header_at st p) = 0xFF" "Next (header_at st p) = 0xFFFFFFFF"
    "SectorLength (header_at st p) = 0xFFFFFFFF" "DataOffset (header_at st p) = 0xFFFFFFFF"
  by (simp_all add: header_at_def header_of_window assms erased_def rd32_def)

lemma chain_header_fields:
  "Key (chain_header tbl m j) = FFS_SECTOR_HEADER_KEY"
  "Status (chain_header tbl m j) = (if j = 0 then FFS_SECTOR_HEADER_INUSE_FILENODE else FFS_SECTOR_HEADER_INUSE)"
  "SectorLength (chain_header tbl m j) = of_nat (sector_size tbl j)"
  "DataOffset (chain_header tbl m j) = of_nat (dataoff j)"
  "Next (chain_header tbl m j) = (if Suc j < m then of_nat (Suc j) else NO_SECTOR)"
  by (simp_all add: chain_header_def fresh_header_def)

lemma FindFreeSector_loop_step:
  assumes fit: "sectors_fit (FlashSectionTable st)"
  shows "FindFreeSector_loop (Suc fuel) st X var =
     (case GetFlashSectionEntry st X of
        None \<Rightarrow> Inr (st, None)
      | Some p \<Rightarrow>
          if Key (header_at st p) = FFS_SECTOR_HEADER_KEY then
            (if Status (header_at st p) = FFS_SECTOR_HEADER_FREE
                \<or> Status (header_at st p) = FFS_SECTOR_HEADER_FREE_DIRTY
             then Inr (st, Some (X, header_at st p, fst p))
             else FindFreeSector_loop fuel st (X + 1) (Some (header_at st p)))
          else Inr (st\<lparr>ErrorSectorCount := (if 1 > ErrorSectorCount st then 1 else ErrorSectorCount st)\<rparr>,
                    Some (X, header_at st p, fst p)))"
proof (cases "GetFlashSectionEntry st X")
  case None
  then show ?thesis by simp
next
  case (Some p)
  note sz = fit_size [OF fit Some]
  obtain k0 rel where pk: "p = (k0, rel)" by (cases p)
  show ?thesis
    using Some ReadSector_head [OF Some sz]
    by (simp add: pk read_into_def header_at_def)
qed

lemma LocatePosition_loop_step:
  assumes fit: "sectors_fit (FlashSectionTable st)"
  shows "LocatePosition_loop (Suc fuel) st Pos X Cnt =
     (case GetFlashSectionEntry st X of
        None \<Rightarrow> Inr (FFS_RC_INVALID_SECTOR_NUMBER, None)
      | Some p \<Rightarrow>
          if Pos < Cnt + (SectorLength (header_at st p) - DataOffset (header_at st p))
          then Inr (0, Some (X, header_at st p, DataOffset (header_at st p) + (Pos - Cnt)))
          else LocatePosition_loop fuel st Pos (Next (header_at st p))
                 (Cnt + (SectorLength (header_at st p) - DataOffset (header_at st p))))"
proof (cases "GetFlashSectionEntry st X")
  case None
  then show ?thesis by (simp add: ReadSector_unfold)
next
  case (Some p)
  note sz = fit_size [OF fit Some]
  show ?thesis
    using Some by (simp add: ReadSector_head [OF Some sz] header_at_def Let_def)
qed

lemma FindFreeSector_stored:
  assumes fit: "sectors_fit (FlashSectionTable st)"
    and inv: "stored st fn D m V"
    and j: "j \<le> m"
    and run: "FindFreeSector_loop fuel st (of_nat j) var = Inr (sta, r)"
  shows "if m < unat V
         then \<exists>p h. GetFlashSectionEntry st (of_nat m) = Some p \<and> media st p = erased
                     \<and> sector_size (FlashSectionTable st) m = unat (SectorSize (FlashSectionTable st ! fst p))
                     \<and> r = Some (of_nat m, h, fst p) \<and> EraseCount h = 0xFFFFFFFF
         else r = None"
  using j run
proof (induction fuel arbitrary: j var)
  case 0
  then show ?case by simp
next
  case (Suc fuel)
  have mV: "m \<le> unat V" using inv by (simp add: stored_def)
  note step = Suc.prems(2) [unfolded FindFreeSector_loop_step [OF fit]]
  show ?case
  proof (cases "j < m")
    case True
    from stored_used [OF inv True] obtain p where
      p: "GetFlashSectionEntry st (of_nat j) = Some p"
      and mp: "media st p = sector_image (FlashSectionTable st) fn D m j"
      by blast
    note h = header_at_image [OF mp]
    have "FindFreeSector_loop fuel st (of_nat j + 1) (Some (chain_header (FlashSectionTable st) m j))
            = Inr (sta, r)"
      using step by (simp add: p h chain_header_fields split: if_splits)
    then have "FindFreeSector_loop fuel st (of_nat (Suc j)) (Some (chain_header (FlashSectionTable st) m j))
            = Inr (sta, r)"
      by (simp add: add.commute)
    from Suc.IH [OF _ this] True show ?thesis by simp
  next
    case False
    with Suc.prems(1) have jm: "j = m" by simp
    show ?thesis
    proof (cases "m < unat V")
      case True
      from stored_free [OF inv True] obtain p where
        p: "GetFlashSectionEntry st (of_nat m) = Some p" and mp: "media st p = erased"
        and sz: "sector_size (FlashSectionTable st) m = unat (SectorSize (FlashSectionTable st ! fst p))"
        by blast
      note he = header_at_erased [OF mp]
      have "r = Some (of_nat m, header_at st p, fst p)"
        using step by (simp add: jm p he(1))
      with True p mp he(2) sz show ?thesis by simp
    next
      case nV: False
      with mV have "m = unat V" by simp
      then have "(of_nat m :: ulong) = V" by simp
      with inv have "GetFlashSectionEntry st (of_nat m) = None"
        by (simp add: stored_def)
      with step nV show ?thesis
        by (simp add: jm)
    qed
  qed
qed

lemma AllocateSector_stored:
  assumes fit: "sectors_fit (FlashSectionTable st)"
    and inv: "stored st fn D m V"
    and run: "AllocateSector fuel st var = Inr (rc, st3, r)"
  shows "if m < unat V
         then \<exists>p. GetFlashSectionEntry st (of_nat m) = Some p \<and> rc = 0
                \<and> r = Some (of_nat m, fresh_header FFS_SECTOR_HEADER_INUSE SIZEOF_SECTOR_HEADER 0xFFFFFFFF
                                         (of_nat (sector_size (FlashSectionTable st) m)))
                \<and> FlashSectionTable st3 = FlashSectionTable st
                \<and> FileDescriptors st3 = FileDescriptors st
                \<and> media st3 = (media st)(p := nor_write erased 0
                      (header_bytes (fresh_header FFS_SECTOR_HEADER_INUSE SIZEOF_SECTOR_HEADER 0xFFFFFFFF
                                       (of_nat (sector_size (FlashSectionTable st) m)))))
         else rc = FFS_RC_OUT_OF_SPACE \<and> r = None"
proof (cases "FindFreeSector_loop fuel st 0 var")
  case (Inl e)
  with run show ?thesis by (simp add: AllocateSector_result [OF fit])
next
  case (Inr x)
  obtain sta found where x: "x = (sta, found)" by (cases x)
  note fr = FindFreeSector_loop_frame [OF Inr [unfolded x]]
  from Inr x have ff: "FindFreeSector_loop fuel st (of_nat 0) var = Inr (sta, found)" by simp
  note fs = FindFreeSector_stored [OF fit inv _ ff]
  show ?thesis
  proof (cases "m < unat V")
    case True
    with fs obtain p h where p: "GetFlashSectionEntry st (of_nat m) = Some p"
      and sz: "sector_size (FlashSectionTable st) m = unat (SectorSize (FlashSectionTable st ! fst p))"
      and f: "found = Some (of_nat m, h, fst p)" and e: "EraseCount h = 0xFFFFFFFF"
      by auto
    from run Inr x f p fr True e sz show ?thesis
      by (auto simp: AllocateSector_result [OF fit] allocated_def)
  next
    case False
    with fs have "found = None" by simp
    with run Inr x False show ?thesis
      by (simp add: AllocateSector_result [OF fit])
  qed
qed

lemma AllocateSectorWithFilenode_stored:
  assumes fit: "sectors_fit (FlashSectionTable st)"
    and inv: "stored st fn D m V"
    and run: "AllocateSectorWithFilenode fuel st var = Inr (rc, st3, r)"
  shows "if m < unat V
         then \<exists>p. GetFlashSectionEntry st (of_nat m) = Some p \<and> rc = 0
                \<and> r = Some (of_nat m, fresh_header FFS_SECTOR_HEADER_INUSE_FILENODE
                                         (SIZEOF_SECTOR_HEADER + SIZEOF_FILE_NODE) 0xFFFFFFFF
                                         (of_nat (sector_size (FlashSectionTable st) m)))
                \<and> FlashSectionTable st3 = FlashSectionTable st
                \<and> FileDescriptors st3 = FileDescriptors st
                \<and> media st3 = (media st)(p := nor_write erased 0
                      (header_bytes (fresh_header FFS_SECTOR_HEADER_INUSE_FILENODE
                                       (SIZEOF_SECTOR_HEADER + SIZEOF_FILE_NODE) 0xFFFFFFFF
                                       (of_nat (sector_size (FlashSectionTable st) m)))))
         else rc = FFS_RC_OUT_OF_SPACE \<and> r = None"
proof (cases "FindFreeSector_loop fuel st 0 var")
  case (Inl e)
  with run show ?thesis by (simp add: AllocateSectorWithFilenode_result [OF fit])
next
  case (Inr x)
  obtain sta found where x: "x = (sta, found)" by (cases x)
  note fr = FindFreeSector_loop_frame [OF Inr [unfolded x]]
  from Inr x have ff: "FindFreeSector_loop fuel st (of_nat 0) var = Inr (sta, found)" by simp
  note fs = FindFreeSector_stored [OF fit inv _ ff]
  show ?thesis
  proof (cases "m < unat V")
    case True
    with fs obtain p h where p: "GetFlashSectionEntry st (of_nat m) = Some p"
      and sz: "sector_size (FlashSectionTable st) m = unat (SectorSize (FlashSectionTable st ! fst p))"
      and f: "found = Some (of_nat m, h, fst p)" and e: "EraseCount h = 0xFFFFFFFF"
      by auto
    from run Inr x f p fr True e sz show ?thesis
      by (auto simp: AllocateSectorWithFilenode_result [OF fit] allocated_def)
  next
    case False
    with fs have "found = None" by simp
    with run Inr x False show ?thesis
      by (simp add: AllocateSectorWithFilenode_result [OF fit])
  qed
qed

lemma small_unat: "k < 2 ^ 31 \<Longrightarrow> unat (of_nat k :: ulong) = k"
  by (simp add: unsigned_of_nat take_bit_eq_mod)

lemma advance_write_at_pos:
  assumes d: "FileDescriptors st fd = at_pos dsc k" and b: "k + unat r < 2 ^ 31"
  shows "FileDescriptors (advance_write st fd r) fd = at_pos dsc (k + unat r)"
    "media (advance_write st fd r) = media st"
proof -
  have u1: "unat (of_nat k :: ulong) = k"
    using b by (intro small_unat) simp
  have "unat (of_nat (k + unat r) :: ulong) = k + unat r"
    using b by (rule small_unat)
  then have u2: "unat ((of_nat k :: ulong) + r) = k + unat r"
    by simp
  have "unat r = 0" if "\<not> (of_nat k :: ulong) < of_nat k + r"
    using that unfolding word_less_nat_alt u1 u2 by simp
  then have z: "r = 0" if "\<not> (of_nat k :: ulong) < of_nat k + r"
    using that by (simp add: unat_eq_0)
  show "FileDescriptors (advance_write st fd r) fd = at_pos dsc (k + unat r)"
    unfolding advance_write_def Let_def set_descriptor_def d at_pos_def
    using z by auto
  show "media (advance_write st fd r) = media st"
    by (simp add: advance_write_def Let_def set_descriptor_def)
qed

lemma stored_append:
  assumes fit: "sectors_fit (FlashSectionTable st)"
    and inv: "stored st fn D (Suc c) V"
    and lo: "payload_start (FlashSectionTable st) c \<le> length D"
    and hi: "length D + length chunk \<le> payload_start (FlashSectionTable st) (Suc c)"
    and p: "GetFlashSectionEntry st (of_nat c) = Some p"
    and tbl: "FlashSectionTable st' = FlashSectionTable st"
    and med: "media st' = (media st)(p := nor_write (media st p)
                 (dataoff c + (length D - payload_start (FlashSectionTable st) c)) chunk)"
  shows "stored st' fn (D @ chunk) (Suc c) V"
proof (rule stored_update [OF inv tbl _ _ _ p])
  show "c < Suc c" "Suc c \<le> Suc c" by simp_all
  show "Suc c \<le> unat V" using inv by (simp add: stored_def)
  have sz: "dataoff j \<le> sector_size (FlashSectionTable st) j" if "j < Suc c" for j
  proof -
    from stored_used [OF inv that] obtain q where
      q: "GetFlashSectionEntry st (of_nat j) = Some q"
      "sector_size (FlashSectionTable st) j = unat (SectorSize (FlashSectionTable st ! fst q))"
      by blast
    from fit_size [OF fit q(1)] q(2) dataoff_ge(2) [of j] show ?thesis by simp
  qed
  from stored_used [OF inv, of c] p have mp: "media st p = sector_image (FlashSectionTable st) fn D (Suc c) c"
    by auto
  show "media st' = (media st)(p := sector_image (FlashSectionTable st) fn (D @ chunk) (Suc c) c)"
    unfolding med mp using sector_image_append_here [OF lo hi sz] by simp
  fix j assume j: "j < Suc c" "j \<noteq> c"
  then have "Suc j \<le> c" by simp
  from payload_start_mono [OF this, of "FlashSectionTable st"] lo
  have "payload_start (FlashSectionTable st) (Suc j) \<le> length D" by simp
  from sector_image_append_before [OF this sz] j
  show "j < Suc c \<and> sector_image (FlashSectionTable st) fn (D @ chunk) (Suc c) j
                     = sector_image (FlashSectionTable st) fn D (Suc c) j"
    by simp
qed

lemma stored_link:
  assumes inv: "stored st fn D (Suc c) V"
    and full: "length D \<le> payload_start (FlashSectionTable st) (Suc c)"
    and fn: "length fn = 80" "set fn \<subseteq> {0xFF}"
    and c: "Suc c < unat V"
    and p: "GetFlashSectionEntry st (of_nat c) = Some p"
    and pN: "GetFlashSectionEntry st (of_nat (Suc c)) = Some pN"
    and tbl: "FlashSectionTable st' = FlashSectionTable st"
    and med: "media st' = (media st)
                (pN := nor_write erased 0
                         (header_bytes (fresh_header FFS_SECTOR_HEADER_INUSE SIZEOF_SECTOR_HEADER 0xFFFFFFFF
                                          (of_nat (sector_size (FlashSectionTable st) (Suc c))))),
                 p := nor_write (media st p) 4 (le32 (of_nat (Suc c))))"
  shows "stored st' fn D (Suc (Suc c)) V"
proof (rule stored_grow [OF inv tbl c p pN])
  from stored_used [OF inv, of c] p have mp: "media st p = sector_image (FlashSectionTable st) fn D (Suc c) c"
    by auto
  have a: "nor_write erased 0
             (header_bytes (fresh_header FFS_SECTOR_HEADER_INUSE SIZEOF_SECTOR_HEADER 0xFFFFFFFF
                              (of_nat (sector_size (FlashSectionTable st) (Suc c)))))
           = sector_image (FlashSectionTable st) fn D (Suc (Suc c)) (Suc c)"
    using sector_image_new [OF full fn] by (simp add: dataoff_def)
  have b: "nor_write (media st p) 4 (le32 (of_nat (Suc c)))
           = sector_image (FlashSectionTable st) fn D (Suc (Suc c)) c"
    unfolding mp by (rule sector_image_link) simp
  show "media st' = (media st)(pN := sector_image (FlashSectionTable st) fn D (Suc (Suc c)) (Suc c),
                               p := sector_image (FlashSectionTable st) fn D (Suc (Suc c)) c)"
    unfolding med a b ..
qed

lemma take_chunks:
  "r \<le> k \<Longrightarrow> take r (drop b xs) @ take (k - r) (drop (b + r) xs) = take k (drop b xs)"
  using take_add [of r "k - r" "drop b xs"] by (simp add: add.commute)

lemma write_loop_stored:
  assumes fit: "sectors_fit (FlashSectionTable st)"
    and fn: "length fn = 80" "set fn \<subseteq> {0xFF}"
    and inv: "stored st fn D (Suc c) V"
    and sec: "Sector = of_nat c"
    and len: "SectorLength SecHead = of_nat (sector_size (FlashSectionTable st) c)"
    and off: "Offset = of_nat (dataoff c + (length D - payload_start (FlashSectionTable st) c))"
    and lo: "payload_start (FlashSectionTable st) c \<le> length D"
    and hi: "length D \<le> payload_start (FlashSectionTable st) (Suc c)"
    and bound: "length D + unat n < 2 ^ 31"
    and desc: "FileDescriptors st fd = at_pos dsc (length D)"
    and bp: "bufpos \<le> length buf"
    and run: "write_loop fuel st fd buf bufpos n Sector SecHead Offset Tot = Inr (rc, st')"
    and ok: "0 \<le> rc"
  shows "\<exists>c'. stored st' fn (D @ take (unat n) (drop bufpos buf)) (Suc c') V
           \<and> payload_start (FlashSectionTable st) c' \<le> length D + unat n
           \<and> length D + unat n \<le> payload_start (FlashSectionTable st) (Suc c')
           \<and> bufpos + unat n \<le> length buf
           \<and> FlashSectionTable st' = FlashSectionTable st
           \<and> FileDescriptors st' fd = at_pos dsc (length D + unat n)
           \<and> rc = sint (Tot + n)"
  using fit inv sec len off lo hi bound desc bp run
proof (induction fuel arbitrary: st D c Sector SecHead Offset Tot bufpos n)
  case 0
  then show ?case by simp
next
  case (Suc fuel)
  note fit = Suc.prems(1) and inv = Suc.prems(2) and sec = Suc.prems(3) and len = Suc.prems(4)
    and off = Suc.prems(5) and lo = Suc.prems(6) and hi = Suc.prems(7) and bound = Suc.prems(8)
    and desc = Suc.prems(9) and bp = Suc.prems(10) and run = Suc.prems(11)
  show ?case
  proof (cases "n = 0")
    case True
    with run have "rc = sint Tot" "st' = st" by simp_all
    with True inv lo hi desc bp show ?thesis by auto
  next
    case False
    from stored_used [OF inv, of c] obtain p where
      p: "GetFlashSectionEntry st (of_nat c) = Some p"
      and sz: "sector_size (FlashSectionTable st) c = unat (SectorSize (FlashSectionTable st ! fst p))"
      by auto
    note fs = fit_size [OF fit p]
    define szw where "szw = SectorSize (FlashSectionTable st ! fst p)"
    define wo where "wo = dataoff c + (length D - payload_start (FlashSectionTable st) c)"
    define room where "room = payload_start (FlashSectionTable st) (Suc c) - length D"
    have geom: "wo + room = unat szw"
      using lo hi fs dataoff_ge(2) [of c] sz
      by (simp add: wo_def room_def payload_size_def szw_def)
    have uo: "unat Offset = wo"
      unfolding off wo_def [symmetric] using geom by (intro le_unat_uoi [of _ szw]) simp
    have ul: "SectorLength SecHead = szw"
      by (simp add: len sz szw_def)
    have ole: "Offset \<le> szw"
      using geom by (simp add: word_le_nat_alt uo)
    have ur: "unat (SectorLength SecHead - Offset) = room"
      using geom by (simp add: ul unat_sub [OF ole] uo)
    define RemLen where "RemLen = (if n < SectorLength SecHead - Offset then n
                                   else SectorLength SecHead - Offset)"
    define r where "r = unat RemLen"
    have r: "r = min (unat n) room"
      by (simp add: r_def RemLen_def word_less_nat_alt ur min_def)
    have rle: "RemLen \<le> n"
      by (simp add: RemLen_def not_less)
    have nb: "\<not> length buf < bufpos + r"
      using run False by (auto simp: RemLen_def r_def Let_def split: if_splits)
    define chunk where "chunk = take (unat RemLen) (drop bufpos buf)"
    have lc: "length chunk = r"
      using nb by (simp add: chunk_def r_def)
    have pS: "GetFlashSectionEntry st Sector = Some p"
      by (simp add: sec p)
    have small: "length chunk < 2 ^ 31"
      using bound r lc by simp
    have w: "WriteSector st FileData Sector Offset chunk =
               (int (length chunk),
                st\<lparr>media := (media st)(p := nor_write (media st p) (unat Offset) chunk),
                   journal := journal st @ [OpWrite FileData Sector Offset chunk]\<rparr>)"
      using geom r lc by (intro WriteSector_valid [OF pS small]) (simp add: uo szw_def)
    define st1 where "st1 = snd (WriteSector st FileData Sector Offset chunk)"
    define st2 where "st2 = advance_write st1 fd RemLen"
    have t2: "FlashSectionTable st2 = FlashSectionTable st"
      by (simp add: st2_def st1_def)
    have d1: "FileDescriptors st1 fd = at_pos dsc (length D)"
      by (simp add: st1_def w desc)
    have br: "length D + unat RemLen < 2 ^ 31"
      using bound r by (simp add: r_def [symmetric])
    note aw = advance_write_at_pos [OF d1 br]
    have d2: "FileDescriptors st2 fd = at_pos dsc (length D + r)"
      using aw(1) by (simp add: st2_def r_def)
    have m2: "media st2 = (media st)(p := nor_write (media st p)
                (dataoff c + (length D - payload_start (FlashSectionTable st) c)) chunk)"
      using aw(2) by (simp add: st2_def st1_def w uo wo_def)
    have hi2: "length D + length chunk \<le> payload_start (FlashSectionTable st) (Suc c)"
      using r hi by (simp add: lc room_def)
    note inv2 = stored_append [OF fit inv lo hi2 p t2 m2]
    have fit2: "sectors_fit (FlashSectionTable st2)"
      using fit by (simp add: t2)
    show ?thesis
    proof (cases "n - RemLen = 0")
      case True
      then have e: "RemLen = n" by simp
      then have rn: "r = unat n" by (simp add: r_def)
      from run False nb [unfolded r_def] True have "st' = st2" "rc = sint (Tot + RemLen)"
        by (simp_all add: Let_def RemLen_def [symmetric] chunk_def [symmetric]
                          st1_def [symmetric] st2_def [symmetric])
      with inv2 t2 d2 lo hi2 nb show ?thesis
        by (auto simp: rn [symmetric] chunk_def lc e)
    next
      case more: False
      then have ne: "RemLen \<noteq> n" by simp
      then have rr: "r = room" "room < unat n"
      proof -
        from ne have a: "\<not> n < SectorLength SecHead - Offset"
          by (auto simp: RemLen_def)
        with ne show "r = room" by (simp add: r_def RemLen_def ur)
        from a have "room \<le> unat n" by (simp add: word_less_nat_alt ur)
        moreover from ne have "unat RemLen \<noteq> unat n" by (simp add: word_unat_eq_iff)
        ultimately show "room < unat n" using \<open>r = room\<close> by (simp add: r_def)
      qed
      have full: "length (D @ chunk) = payload_start (FlashSectionTable st) (Suc c)"
        using hi rr by (simp add: lc room_def)
      from run False nb more
      have run': "(case AllocateSector fuel st2 (Some SecHead) of
                    Inl e \<Rightarrow> Inl e
                  | Inr (rc, st3, None) \<Rightarrow> Inr (rc, st3)
                  | Inr (rc, st3, Some (NewSector, SecHead1)) \<Rightarrow>
                      (let st4 = snd (WriteSector st3 NextLink Sector OFFSET_OF_NEXT (le32 NewSector))
                       in write_loop fuel st4 fd buf (bufpos + unat RemLen) (n - RemLen) NewSector
                            SecHead1 SIZEOF_SECTOR_HEADER (Tot + RemLen))) = Inr (rc, st')"
        using nb [unfolded r_def]
        by (simp add: Let_def RemLen_def [symmetric] chunk_def [symmetric]
                      st1_def [symmetric] st2_def [symmetric])
      show ?thesis
      proof (cases "AllocateSector fuel st2 (Some SecHead)")
        case (Inl e)
        with run' show ?thesis by simp
      next
        case (Inr x)
        obtain rc3 st3 r3 where x: "x = (rc3, st3, r3)" by (cases x)
        note al = AllocateSector_stored [OF fit2 inv2 Inr [unfolded x]]
        show ?thesis
        proof (cases "Suc c < unat V")
          case nospace: False
          with al have "rc3 = FFS_RC_OUT_OF_SPACE" "r3 = None" by simp_all
          with run' Inr x have "rc = FFS_RC_OUT_OF_SPACE" by simp
          with ok show ?thesis by simp
        next
          case True
          define hd1 where "hd1 = fresh_header FFS_SECTOR_HEADER_INUSE SIZEOF_SECTOR_HEADER 0xFFFFFFFF
                                    (of_nat (sector_size (FlashSectionTable st) (Suc c)))"
          define N :: ulong where "N = of_nat (Suc c)"
          from al True obtain pN where
            pN: "GetFlashSectionEntry st2 N = Some pN"
            and r3: "r3 = Some (N, hd1)"
            and t3: "FlashSectionTable st3 = FlashSectionTable st"
            and d3: "FileDescriptors st3 = FileDescriptors st2"
            and m3: "media st3 = (media st2)(pN := nor_write erased 0 (header_bytes hd1))"
            by (auto simp: t2 hd1_def N_def)
          have p2: "GetFlashSectionEntry st2 (of_nat c) = Some p"
            using p t2 by (simp add: GetFlashSectionEntry_def)
          have p3: "GetFlashSectionEntry st3 Sector = Some p"
            using p t3 by (simp add: GetFlashSectionEntry_def sec)
          have ne: "p \<noteq> pN"
          proof
            assume "p = pN"
            with p2 pN have "(of_nat c :: ulong) = N"
              by (auto dest: GetFlashSectionEntry_inj)
            then have "unat (of_nat c :: ulong) = unat (of_nat (Suc c) :: ulong)"
              unfolding N_def by (rule arg_cong)
            moreover have "unat (of_nat c :: ulong) = c" "unat (of_nat (Suc c) :: ulong) = Suc c"
              using True by (intro le_unat_uoi [of _ V]; simp)+
            ultimately show False by simp
          qed
          define st4 where "st4 = snd (WriteSector st3 NextLink Sector OFFSET_OF_NEXT (le32 N))"
          have w4: "WriteSector st3 NextLink Sector OFFSET_OF_NEXT (le32 N) =
                      (int (length (le32 N)),
                       st3\<lparr>media := (media st3)(p := nor_write (media st3 p) (unat OFFSET_OF_NEXT) (le32 N)),
                           journal := journal st3 @ [OpWrite NextLink Sector OFFSET_OF_NEXT (le32 N)]\<rparr>)"
            using fs by (intro WriteSector_valid [OF p3]) (simp_all add: t3)
          have t4: "FlashSectionTable st4 = FlashSectionTable st"
            by (simp add: st4_def t3)
          have d4: "FileDescriptors st4 fd = at_pos dsc (length (D @ chunk))"
            by (simp add: st4_def w4 d3 d2 lc)
          have m4: "media st4 = (media st2)
                      (pN := nor_write erased 0
                         (header_bytes (fresh_header FFS_SECTOR_HEADER_INUSE SIZEOF_SECTOR_HEADER 0xFFFFFFFF
                                          (of_nat (sector_size (FlashSectionTable st2) (Suc c))))),
                       p := nor_write (media st2 p) 4 (le32 N))"
            using ne by (simp add: st4_def w4 m3 hd1_def t2)
          have full2: "length (D @ chunk) \<le> payload_start (FlashSectionTable st2) (Suc c)"
            using full by (simp add: t2)
          have t42: "FlashSectionTable st4 = FlashSectionTable st2"
            by (simp add: t4 t2)
          note inv4 = stored_link [OF inv2 full2 fn True p2 pN [unfolded N_def] t42 m4 [unfolded N_def]]
          have fit4: "sectors_fit (FlashSectionTable st4)"
            using fit by (simp add: t4)
          have run4: "write_loop fuel st4 fd buf (bufpos + r) (n - RemLen) N hd1
                        SIZEOF_SECTOR_HEADER (Tot + RemLen) = Inr (rc, st')"
            using run' Inr x r3 by (simp add: st4_def r_def)
          have len4: "SectorLength hd1 = of_nat (sector_size (FlashSectionTable st4) (Suc c))"
            by (simp add: hd1_def fresh_header_def t4)
          have off4: "SIZEOF_SECTOR_HEADER
                        = of_nat (dataoff (Suc c)
                                  + (length (D @ chunk) - payload_start (FlashSectionTable st4) (Suc c)))"
            using full by (simp add: t4 dataoff_def)
          have lo4: "payload_start (FlashSectionTable st4) (Suc c) \<le> length (D @ chunk)"
            using full by (simp add: t4)
          have hi4: "length (D @ chunk) \<le> payload_start (FlashSectionTable st4) (Suc (Suc c))"
            using full by (simp add: t4)
          have un: "unat (n - RemLen) = unat n - r"
            by (simp add: unat_sub [OF rle] r_def)
          have b4: "length (D @ chunk) + unat (n - RemLen) < 2 ^ 31"
            using bound rr by (simp add: un lc)
          have bp4: "bufpos + r \<le> length buf"
            using nb by simp
          from Suc.IH [OF fit4 inv4 N_def len4 off4 lo4 hi4 b4 d4 bp4 run4]
          obtain c' where
            c': "stored st' fn ((D @ chunk) @ take (unat (n - RemLen)) (drop (bufpos + r) buf)) (Suc c') V"
              "payload_start (FlashSectionTable st4) c' \<le> length (D @ chunk) + unat (n - RemLen)"
              "length (D @ chunk) + unat (n - RemLen) \<le> payload_start (FlashSectionTable st4) (Suc c')"
              "bufpos + r + unat (n - RemLen) \<le> length buf"
              "FlashSectionTable st' = FlashSectionTable st4"
              "FileDescriptors st' fd = at_pos dsc (length (D @ chunk) + unat (n - RemLen))"
              "rc = sint (Tot + RemLen + (n - RemLen))"
            by blast
          have tot: "length (D @ chunk) + unat (n - RemLen) = length D + unat n"
            using rr by (simp add: un lc)
          have cat: "(D @ chunk) @ take (unat (n - RemLen)) (drop (bufpos + r) buf)
                       = D @ take (unat n) (drop bufpos buf)"
            using take_chunks [of r "unat n" bufpos buf] rr by (simp add: un chunk_def r_def)
          from c' show ?thesis
            unfolding tot cat t4 using rr(2) rr(1)
            by (intro exI [of _ c']) (simp add: un)
        qed
      qed
    qed
  qed
qed

lemma stored_no_sector:
  assumes "stored st fn D m V" "GetFlashSectionEntry st NO_SECTOR = Some p"
  shows "media st p = erased"
proof -
  have "V \<le> (- 1 :: ulong)" by simp
  then have "unat V \<le> unat (- 1 :: ulong)" by (simp only: word_le_nat_alt)
  moreover from assms(1) have "m \<le> unat V" by (simp add: stored_def)
  ultimately have "\<not> unat (- 1 :: ulong) < m" by simp
  moreover have "(- 1 :: ulong) = NO_SECTOR" by simp
  ultimately have n: "\<not> unat NO_SECTOR < m" by simp
  from assms have "media st p = (if unat NO_SECTOR < m
                     then sector_image (FlashSectionTable st) fn D m (unat NO_SECTOR) else erased)"
    unfolding stored_def by blast
  with n show ?thesis by (simp only: if_False)
qed

lemma LocatePosition_off_chain:
  assumes fit: "sectors_fit (FlashSectionTable st)"
    and inv: "stored st fn D m V"
    and ge: "\<not> Pos < Cnt"
    and run: "LocatePosition_loop fuel st Pos NO_SECTOR Cnt = Inr (rc, r)"
  shows "r = None"
  using run
proof (induction fuel)
  case 0
  then show ?case by simp
next
  case (Suc fuel)
  note step = Suc.prems [unfolded LocatePosition_loop_step [OF fit]]
  show ?case
  proof (cases "GetFlashSectionEntry st NO_SECTOR")
    case None
    with step show ?thesis by simp
  next
    case (Some p)
    note he = header_at_erased [OF stored_no_sector [OF inv Some]]
    from step Some ge have "LocatePosition_loop fuel st Pos NO_SECTOR Cnt = Inr (rc, r)"
      by (simp add: he)
    then show ?thesis by (rule Suc.IH)
  qed
qed

lemma LocatePosition_loop_none:
  assumes fit: "sectors_fit (FlashSectionTable st)"
    and run: "LocatePosition_loop fuel st Pos X Cnt = Inr (rc, None)"
  shows "rc < 0"
  using run
proof (induction fuel arbitrary: X Cnt)
  case 0
  then show ?case by simp
next
  case (Suc fuel)
  note step = Suc.prems [unfolded LocatePosition_loop_step [OF fit]]
  show ?case
  proof (cases "GetFlashSectionEntry st X")
    case None
    with step show ?thesis by simp
  next
    case (Some p)
    with step Suc.IH show ?thesis by (auto split: if_splits)
  qed
qed

lemma stored_geometry:
  assumes fit: "sectors_fit (FlashSectionTable st)" and inv: "stored st fn D m V" and j: "j < unat V"
  shows "104 \<le> sector_size (FlashSectionTable st) j"
    "(of_nat (sector_size (FlashSectionTable st) j) :: ulong) - of_nat (dataoff j)
       = of_nat (payload_size (FlashSectionTable st) j)"
proof -
  from stored_valid [OF inv j] obtain p where
    p: "GetFlashSectionEntry st (of_nat j) = Some p"
    "sector_size (FlashSectionTable st) j = unat (SectorSize (FlashSectionTable st ! fst p))"
    by blast
  from fit_size [OF fit p(1)] p(2) show a: "104 \<le> sector_size (FlashSectionTable st) j" by simp
  with dataoff_ge(2) [of j] have "dataoff j \<le> sector_size (FlashSectionTable st) j" by simp
  then show "(of_nat (sector_size (FlashSectionTable st) j) :: ulong) - of_nat (dataoff j)
       = of_nat (payload_size (FlashSectionTable st) j)"
    unfolding payload_size_def by (rule of_nat_diff [symmetric])
qed

lemma LocatePosition_stored:
  assumes fit: "sectors_fit (FlashSectionTable st)"
    and inv: "stored st fn D (Suc c) V"
    and lo: "payload_start (FlashSectionTable st) c \<le> length D"
    and small: "length D < 2 ^ 31"
    and j: "j \<le> c"
    and run: "LocatePosition_loop fuel st (of_nat (length D)) (of_nat j)
                (of_nat (payload_start (FlashSectionTable st) j)) = Inr (rc, Some (Sector, SecHead, Offset))"
  shows "Sector = of_nat c
         \<and> SectorLength SecHead = of_nat (sector_size (FlashSectionTable st) c)
         \<and> Offset = of_nat (dataoff c + (length D - payload_start (FlashSectionTable st) c))
         \<and> length D < payload_start (FlashSectionTable st) (Suc c)"
  using j run
proof (induction fuel arbitrary: j)
  case 0
  then show ?case by simp
next
  case (Suc fuel)
  define tbl where "tbl = FlashSectionTable st"
  have jm: "j < Suc c" using Suc.prems(1) by simp
  from inv have cV: "Suc c \<le> unat V" by (simp add: stored_def)
  with jm have jV: "j < unat V" by simp
  from stored_used [OF inv jm] obtain p where
    p: "GetFlashSectionEntry st (of_nat j) = Some p"
    and mp: "media st p = sector_image (FlashSectionTable st) fn D (Suc c) j"
    by blast
  note h = header_at_image [OF mp]
  note g = stored_geometry [OF fit inv jV]
  have cap: "SectorLength (header_at st p) - DataOffset (header_at st p)
               = of_nat (payload_size (FlashSectionTable st) j)"
    by (simp only: h chain_header_fields g(2))
  have cnt: "(of_nat (payload_start (FlashSectionTable st) j) :: ulong)
               + of_nat (payload_size (FlashSectionTable st) j)
             = of_nat (payload_start (FlashSectionTable st) (Suc j))"
    by simp
  have uD: "unat (of_nat (length D) :: ulong) = length D"
    using small by (rule small_unat)
  note step = Suc.prems(2) [unfolded LocatePosition_loop_step [OF fit], unfolded p option.case cap cnt]
  show ?case
  proof (cases "j < c")
    case True
    then have "Suc j \<le> c" by simp
    from payload_start_mono [OF this, of "FlashSectionTable st"] lo
    have le: "payload_start (FlashSectionTable st) (Suc j) \<le> length D" by simp
    with small have "payload_start (FlashSectionTable st) (Suc j) < 2 ^ 31" by simp
    then have "unat (of_nat (payload_start (FlashSectionTable st) (Suc j)) :: ulong)
                 = payload_start (FlashSectionTable st) (Suc j)"
      by (rule small_unat)
    with le uD have nt: "\<not> (of_nat (length D) :: ulong)
                           < of_nat (payload_start (FlashSectionTable st) (Suc j))"
      by (simp only: word_less_nat_alt)
    have nx: "Next (header_at st p) = of_nat (Suc j)"
      using True by (simp only: h chain_header_fields) simp
    from step have "LocatePosition_loop fuel st (of_nat (length D)) (of_nat (Suc j))
                (of_nat (payload_start (FlashSectionTable st) (Suc j)))
              = Inr (rc, Some (Sector, SecHead, Offset))"
      unfolding nx using nt by (simp only: if_False)
    from Suc.IH [OF \<open>Suc j \<le> c\<close> this] show ?thesis .
  next
    case False
    with Suc.prems(1) have jc: "j = c" by simp
    show ?thesis
    proof (cases "(of_nat (length D) :: ulong) < of_nat (payload_start (FlashSectionTable st) (Suc j))")
      case True
      have "unat (of_nat (payload_start (FlashSectionTable st) (Suc j)) :: ulong)
              \<le> payload_start (FlashSectionTable st) (Suc j)"
        by (simp only: unat_of_nat) simp
      with True uD have lt: "length D < payload_start (FlashSectionTable st) (Suc j)"
        by (simp only: word_less_nat_alt)
      from step True have res: "Sector = of_nat j" "SecHead = header_at st p"
        "Offset = DataOffset (header_at st p)
                    + (of_nat (length D) - of_nat (payload_start (FlashSectionTable st) j))"
        by (simp_all only: if_True sum.inject prod.inject option.inject) blast+
      have "Offset = of_nat (dataoff c + (length D - payload_start (FlashSectionTable st) c))"
        using lo unfolding res(3) h jc by (simp add: chain_header_fields of_nat_diff)
      with res lt show ?thesis
        by (simp add: jc h chain_header_fields)
    next
      case nt: False
      have nx: "Next (header_at st p) = NO_SECTOR"
        by (simp add: h chain_header_fields jc)
      from step nt have "LocatePosition_loop fuel st (of_nat (length D)) NO_SECTOR
                (of_nat (payload_start (FlashSectionTable st) (Suc j)))
              = Inr (rc, Some (Sector, SecHead, Offset))"
        unfolding nx by (simp only: if_False)
      from LocatePosition_off_chain [OF fit inv nt this] show ?thesis by simp
    qed
  qed
qed

lemma FFSWrite_open:
  assumes "fd = 0 \<or> fd = 1" "InUse (FileDescriptors st (nat fd)) \<noteq> 0"
  shows "FFSWrite fuel st fd buf n =
     (if FnodeSector (FileDescriptors st (nat fd)) = NO_SECTOR then
        (case AllocateSectorWithFilenode fuel st None of
           Inl e \<Rightarrow> Inl e
         | Inr (rc, st1, None) \<Rightarrow> Inr (rc, st1)
         | Inr (rc, st1, Some (Sector, SecHead)) \<Rightarrow>
             (let st2 = set_descriptor st1 (nat fd)
                          ((FileDescriptors st1 (nat fd))\<lparr>WriteFnode := 1, FnodeSector := Sector\<rparr>)
              in write_loop fuel st2 (nat fd) buf 0 (word_of_int n) Sector SecHead
                   (SIZEOF_SECTOR_HEADER + SIZEOF_FILE_NODE) 0))
      else
        (case LocatePosition_loop fuel st (Position (FileDescriptors st (nat fd)))
                (FnodeSector (FileDescriptors st (nat fd))) 0 of
           Inl e \<Rightarrow> Inl e
         | Inr (rc, None) \<Rightarrow> Inr (rc, st)
         | Inr (rc, Some (Sector, SecHead, Offset)) \<Rightarrow>
             write_loop fuel st (nat fd) buf 0 (word_of_int n) Sector SecHead Offset 0))"
  using assms by (auto simp: FFSWrite_def SanityCheck_def Let_def LocatePosition_def)

lemma at_pos_fields [simp]:
  "InUse (at_pos d k) = InUse d" "FnodeSector (at_pos d k) = FnodeSector d"
  "WriteFnode (at_pos d k) = WriteFnode d" "DeleteOldFile (at_pos d k) = DeleteOldFile d"
  "OldFnodeSector (at_pos d k) = OldFnodeSector d"
  "Position (at_pos d k) = of_nat k" "Fnode (at_pos d k) = (Fnode d)\<lparr>FileSize := of_nat k\<rparr>"
  by (simp_all add: at_pos_def)

lemma FFSWrite_stored:
  assumes fit: "sectors_fit (FlashSectionTable st)"
    and fn: "length fn = 80" "set fn \<subseteq> {0xFF}"
    and inv: "stored st fn D m V"
    and fd: "fd = 0 \<or> fd = 1"
    and d0: "InUse d0 \<noteq> 0" "FnodeSector d0 = NO_SECTOR"
    and desc: "FileDescriptors st (nat fd)
                 = at_pos (if m = 0 then d0 else d0\<lparr>WriteFnode := 1, FnodeSector := 0\<rparr>) (length D)"
    and m0: "m = 0 \<Longrightarrow> D = []"
    and geo: "m \<noteq> 0 \<Longrightarrow> payload_start (FlashSectionTable st) (m - 1) \<le> length D
                          \<and> length D \<le> payload_start (FlashSectionTable st) m"
    and bound: "length D + length b < 2 ^ 31"
    and run: "FFSWrite fuel st fd b (int (length b)) = Inr (int (length b), st')"
  shows "\<exists>c'. stored st' fn (D @ b) (Suc c') V
           \<and> payload_start (FlashSectionTable st) c' \<le> length (D @ b)
           \<and> length (D @ b) \<le> payload_start (FlashSectionTable st) (Suc c')
           \<and> FlashSectionTable st' = FlashSectionTable st
           \<and> FileDescriptors st' (nat fd)
               = at_pos (d0\<lparr>WriteFnode := 1, FnodeSector := 0\<rparr>) (length (D @ b))"
proof -
  define n :: ulong where "n = word_of_int (int (length b))"
  have n: "n = of_nat (length b)" by (simp add: n_def)
  have un: "unat n = length b"
    unfolding n using bound by (intro small_unat) simp
  have tk: "take (unat n) (drop 0 b) = b" by (simp add: un)
  have iu: "InUse (FileDescriptors st (nat fd)) \<noteq> 0"
    using d0 by (simp add: desc)
  note W = run [unfolded FFSWrite_open [OF fd iu], folded n_def]
  have bound': "length D + unat n < 2 ^ 31" using bound by (simp add: un)
  show ?thesis
  proof (cases m)
    case 0
    with m0 have D: "D = []" by simp
    have ns: "FnodeSector (FileDescriptors st (nat fd)) = NO_SECTOR"
      using d0 0 by (simp add: desc)
    show ?thesis
    proof (cases "AllocateSectorWithFilenode fuel st None")
      case (Inl e)
      with W ns show ?thesis by simp
    next
      case (Inr x)
      obtain rc1 st1 r1 where x: "x = (rc1, st1, r1)" by (cases x)
      note al = AllocateSectorWithFilenode_stored [OF fit inv Inr [unfolded x]]
      show ?thesis
      proof (cases "m < unat V")
        case False
        with al have "rc1 = FFS_RC_OUT_OF_SPACE" "r1 = None" by simp_all
        with W ns Inr x show ?thesis by simp
      next
        case True
        define hd where "hd = fresh_header FFS_SECTOR_HEADER_INUSE_FILENODE
                                (SIZEOF_SECTOR_HEADER + SIZEOF_FILE_NODE) 0xFFFFFFFF
                                (of_nat (sector_size (FlashSectionTable st) 0))"
        from al True 0 obtain p where
          p: "GetFlashSectionEntry st (of_nat 0) = Some p"
          and r1: "r1 = Some (0, hd)"
          and t1: "FlashSectionTable st1 = FlashSectionTable st"
          and d1: "FileDescriptors st1 = FileDescriptors st"
          and m1: "media st1 = (media st)(p := nor_write erased 0 (header_bytes hd))"
          by (auto simp: hd_def)
        have img: "nor_write erased 0 (header_bytes hd) = sector_image (FlashSectionTable st) fn [] (Suc 0) 0"
          using sector_image_new [of "[]" "FlashSectionTable st" 0 fn] fn
          by (simp add: hd_def dataoff_def)
        have cV: "Suc 0 \<le> unat V" using True 0 by simp
        have inv1: "stored st1 fn [] (Suc 0) V"
          using inv [unfolded 0 D]
          by (rule stored_update [OF _ t1 _ _ cV p]) (simp_all add: m1 img)
        define st2 where "st2 = set_descriptor st1 (nat fd)
                                  ((FileDescriptors st1 (nat fd))\<lparr>WriteFnode := 1, FnodeSector := 0\<rparr>)"
        have t2: "FlashSectionTable st2 = FlashSectionTable st"
          by (simp add: st2_def set_descriptor_def t1)
        have "FlashSectionTable st2 = FlashSectionTable st1" "media st2 = media st1"
          by (simp_all add: st2_def set_descriptor_def)
        from stored_cong [OF this] inv1 have inv2: "stored st2 fn [] (Suc 0) V"
          by simp
        have d2: "FileDescriptors st2 (nat fd)
                    = at_pos (d0\<lparr>WriteFnode := 1, FnodeSector := 0\<rparr>) (length ([] :: byte list))"
          by (simp add: st2_def set_descriptor_def d1 desc 0 D at_pos_def)
        have run2: "write_loop fuel st2 (nat fd) b 0 n 0 hd (SIZEOF_SECTOR_HEADER + SIZEOF_FILE_NODE) 0
                      = Inr (int (length b), st')"
          using W ns Inr x r1 by (simp add: st2_def)
        have fit2: "sectors_fit (FlashSectionTable st2)" using fit by (simp add: t2)
        from write_loop_stored [OF fit2 fn inv2 _ _ _ _ _ _ d2 _ run2] bound'
        obtain c' where
          "stored st' fn ([] @ take (unat n) (drop 0 b)) (Suc c') V
           \<and> payload_start (FlashSectionTable st2) c' \<le> length ([] :: byte list) + unat n
           \<and> length ([] :: byte list) + unat n \<le> payload_start (FlashSectionTable st2) (Suc c')
           \<and> 0 + unat n \<le> length b
           \<and> FlashSectionTable st' = FlashSectionTable st2
           \<and> FileDescriptors st' (nat fd)
               = at_pos (d0\<lparr>WriteFnode := 1, FnodeSector := 0\<rparr>) (length ([] :: byte list) + unat n)
           \<and> int (length b) = sint (0 + n)"
          by (auto simp: hd_def fresh_header_def t2 dataoff_def D)
        then show ?thesis
          by (intro exI [of _ c']) (simp add: tk un t2 D)
      qed
    qed
  next
    case (Suc c)
    have ns: "FnodeSector (FileDescriptors st (nat fd)) = 0"
      "Position (FileDescriptors st (nat fd)) = of_nat (length D)"
      using Suc by (simp_all add: desc)
    from geo Suc have lo: "payload_start (FlashSectionTable st) c \<le> length D"
      and hi: "length D \<le> payload_start (FlashSectionTable st) (Suc c)"
      by simp_all
    have small: "length D < 2 ^ 31" using bound by simp
    note inv' = inv [unfolded Suc]
    have desc': "FileDescriptors st (nat fd) = at_pos (d0\<lparr>WriteFnode := 1, FnodeSector := 0\<rparr>) (length D)"
      using desc Suc by simp
    show ?thesis
    proof (cases "LocatePosition_loop fuel st (of_nat (length D)) 0 0")
      case (Inl e)
      with W ns show ?thesis by simp
    next
      case (Inr x)
      obtain rc1 r1 where x: "x = (rc1, r1)" by (cases x)
      show ?thesis
      proof (cases r1)
        case None
        from LocatePosition_loop_none [OF fit Inr [unfolded x None]] have "rc1 < 0" .
        with W ns Inr x None show ?thesis by simp
      next
        case (Some y)
        obtain Sector SecHead Offset where y: "y = (Sector, SecHead, Offset)" by (cases y)
        have lp: "LocatePosition_loop fuel st (of_nat (length D)) (of_nat 0)
                    (of_nat (payload_start (FlashSectionTable st) 0))
                  = Inr (rc1, Some (Sector, SecHead, Offset))"
          using Inr x Some y by simp
        note L = LocatePosition_stored [OF fit inv' lo small _ lp]
        have run2: "write_loop fuel st (nat fd) b 0 n Sector SecHead Offset 0 = Inr (int (length b), st')"
          using W ns Inr x Some y by simp
        from write_loop_stored [OF fit fn inv' _ _ _ lo hi bound' desc' _ run2] L
        obtain c' where
          "stored st' fn (D @ take (unat n) (drop 0 b)) (Suc c') V
           \<and> payload_start (FlashSectionTable st) c' \<le> length D + unat n
           \<and> length D + unat n \<le> payload_start (FlashSectionTable st) (Suc c')
           \<and> 0 + unat n \<le> length b
           \<and> FlashSectionTable st' = FlashSectionTable st
           \<and> FileDescriptors st' (nat fd)
               = at_pos (d0\<lparr>WriteFnode := 1, FnodeSector := 0\<rparr>) (length D + unat n)
           \<and> int (length b) = sint (0 + n)"
          by auto
        then show ?thesis
          by (intro exI [of _ c']) (simp add: tk un)
      qed
    qed
  qed
qed

lemma write_all_stored:
  assumes fit: "sectors_fit (FlashSectionTable st)"
    and fn: "length fn = 80" "set fn \<subseteq> {0xFF}"
    and fd: "fd = 0 \<or> fd = 1"
    and d0: "InUse d0 \<noteq> 0" "FnodeSector d0 = NO_SECTOR"
    and inv: "stored st fn D m V"
    and desc: "FileDescriptors st (nat fd)
                 = at_pos (if m = 0 then d0 else d0\<lparr>WriteFnode := 1, FnodeSector := 0\<rparr>) (length D)"
    and m0: "m = 0 \<Longrightarrow> D = []"
    and geo: "m \<noteq> 0 \<Longrightarrow> payload_start (FlashSectionTable st) (m - 1) \<le> length D
                          \<and> length D \<le> payload_start (FlashSectionTable st) m"
    and bound: "length D + length (concat bufs) < 2 ^ 31"
    and run: "write_all fuel st fd bufs = Inr (Some st')"
  shows "\<exists>m'. stored st' fn (D @ concat bufs) m' V
           \<and> FlashSectionTable st' = FlashSectionTable st
           \<and> FileDescriptors st' (nat fd)
               = at_pos (if m' = 0 then d0 else d0\<lparr>WriteFnode := 1, FnodeSector := 0\<rparr>)
                   (length (D @ concat bufs))
           \<and> (m' = 0 \<longrightarrow> D @ concat bufs = [])
           \<and> (m' \<noteq> 0 \<longrightarrow> payload_start (FlashSectionTable st) (m' - 1) \<le> length (D @ concat bufs)
                          \<and> length (D @ concat bufs) \<le> payload_start (FlashSectionTable st) m')"
  using fit inv desc m0 geo bound run
proof (induction bufs arbitrary: st D m)
  case Nil
  then show ?case by (intro exI [of _ m]) auto
next
  case (Cons b bufs)
  note fit = Cons.prems(1) and inv = Cons.prems(2) and desc = Cons.prems(3) and m0 = Cons.prems(4)
    and geo = Cons.prems(5) and bound = Cons.prems(6) and run = Cons.prems(7)
  from run obtain st1 where
    w: "FFSWrite fuel st fd b (int (length b)) = Inr (int (length b), st1)"
    and rest: "write_all fuel st1 fd bufs = Inr (Some st')"
    by (auto split: sum.splits prod.splits if_splits)
  have b1: "length D + length b < 2 ^ 31" using bound by simp
  from FFSWrite_stored [OF fit fn inv fd d0 desc m0 geo b1 w]
  obtain c' where c': "stored st1 fn (D @ b) (Suc c') V"
    "payload_start (FlashSectionTable st) c' \<le> length (D @ b)"
    "length (D @ b) \<le> payload_start (FlashSectionTable st) (Suc c')"
    "FlashSectionTable st1 = FlashSectionTable st"
    "FileDescriptors st1 (nat fd) = at_pos (d0\<lparr>WriteFnode := 1, FnodeSector := 0\<rparr>) (length (D @ b))"
    by blast
  have fit1: "sectors_fit (FlashSectionTable st1)" using fit by (simp add: c'(4))
  have desc1: "FileDescriptors st1 (nat fd)
                 = at_pos (if Suc c' = 0 then d0 else d0\<lparr>WriteFnode := 1, FnodeSector := 0\<rparr>)
                     (length (D @ b))"
    using c'(5) by simp
  have b2: "length (D @ b) + length (concat bufs) < 2 ^ 31" using bound by simp
  from Cons.IH [OF fit1 c'(1) desc1 _ _ b2 rest] c'(2,3)
  obtain m' where "stored st' fn ((D @ b) @ concat bufs) m' V
           \<and> FlashSectionTable st' = FlashSectionTable st1
           \<and> FileDescriptors st' (nat fd)
               = at_pos (if m' = 0 then d0 else d0\<lparr>WriteFnode := 1, FnodeSector := 0\<rparr>)
                   (length ((D @ b) @ concat bufs))
           \<and> (m' = 0 \<longrightarrow> (D @ b) @ concat bufs = [])
           \<and> (m' \<noteq> 0 \<longrightarrow> payload_start (FlashSectionTable st1) (m' - 1) \<le> length ((D @ b) @ concat bufs)
                          \<and> length ((D @ b) @ concat bufs) \<le> payload_start (FlashSectionTable st1) m')"
    by (auto simp: c'(4))
  then show ?case
    by (intro exI [of _ m']) (simp add: c'(4))
qed

lemma fresh_scan:
  assumes fit: "sectors_fit (FlashSectionTable st)"
    and er: "\<And>q. media st q = erased"
    and run: "LocateFileNode_loop fuel st C (of_nat j) v1 v2 = Inr r"
  shows "r = None \<and> (\<exists>k. j \<le> k \<and> k - j < fuel \<and> GetFlashSectionEntry st (of_nat k) = None
                         \<and> (\<forall>i. j \<le> i \<and> i < k \<longrightarrow> ValidSector st (of_nat i)))"
  using run
proof (induction fuel arbitrary: j v1 v2)
  case 0
  then show ?case by simp
next
  case (Suc fuel)
  note step = Suc.prems [unfolded LocateFileNode_loop_step [OF fit]]
  show ?case
  proof (cases "GetFlashSectionEntry st (of_nat j)")
    case None
    with step have "r = None" by simp
    with None show ?thesis by (intro conjI exI [of _ j]) auto
  next
    case (Some p)
    note he = header_at_erased [OF er, of p]
    from step Some have "LocateFileNode_loop fuel st C (of_nat j + 1) (Some (header_at st p)) v2 = Inr r"
      by (simp add: he)
    then have "LocateFileNode_loop fuel st C (of_nat (Suc j)) (Some (header_at st p)) v2 = Inr r"
      by (simp add: add.commute)
    from Suc.IH [OF this] obtain k where
      k: "r = None" "Suc j \<le> k" "k - Suc j < fuel" "GetFlashSectionEntry st (of_nat k) = None"
      "\<forall>i. Suc j \<le> i \<and> i < k \<longrightarrow> ValidSector st (of_nat i)"
      by blast
    have "ValidSector st (of_nat i)" if "j \<le> i" "i < k" for i
    proof (cases "i = j")
      case True
      with Some show ?thesis by (simp add: ValidSector_iff)
    next
      case False
      with that k(5) show ?thesis by simp
    qed
    with k show ?thesis by (intro conjI exI [of _ k]) auto
  qed
qed

lemma first_invalid:
  assumes "GetFlashSectionEntry st (of_nat k) = None" "\<forall>i<k. ValidSector st (of_nat i)"
  shows "unat (of_nat k :: ulong) = k"
proof (rule ccontr)
  assume ne: "unat (of_nat k :: ulong) \<noteq> k"
  have "unat (of_nat k :: ulong) \<le> k"
    by (simp only: unat_of_nat) simp
  with ne have "unat (of_nat k :: ulong) < k" by simp
  with assms(2) have "ValidSector st (of_nat (unat (of_nat k :: ulong)))" by blast
  then have "ValidSector st (of_nat k)" by (simp only: of_nat_unat_ulong)
  with assms(1) show False by (simp add: ValidSector_iff)
qed

lemma fresh_stored:
  assumes fit: "sectors_fit (FlashSectionTable st)"
    and er: "\<And>q. media st q = erased"
    and run: "LocateFileNode_loop fuel st C 0 v1 v2 = Inr r"
  shows "r = None \<and> (\<exists>V. stored st fn [] 0 V \<and> unat V < fuel)"
proof -
  from run have "LocateFileNode_loop fuel st C (of_nat 0) v1 v2 = Inr r" by simp
  from fresh_scan [OF fit er this] obtain k where
    k: "r = None" "k < fuel" "GetFlashSectionEntry st (of_nat k) = None"
    "\<forall>i<k. ValidSector st (of_nat i)"
    by auto
  note u = first_invalid [OF k(3,4)]
  have "ValidSector st S" if "S < of_nat k" for S
  proof -
    from that u have "unat S < k" by (simp add: word_less_nat_alt)
    with k(4) have "ValidSector st (of_nat (unat S))" by blast
    then show ?thesis by (simp only: of_nat_unat_ulong)
  qed
  with k(3) er have "stored st fn [] 0 (of_nat k)"
    by (simp add: stored_def)
  with k(1,2) u show ?thesis by auto
qed

lemma at_pos_same: "Position d = of_nat k \<Longrightarrow> FileSize (Fnode d) = of_nat k \<Longrightarrow> at_pos d k = d"
  by (cases d, cases "Fnode d") (simp add: at_pos_def)

lemma FFSOpen_fresh:
  assumes fit: "sectors_fit tbl"
    and cr: "flags AND FFS_CREATE \<noteq> 0"
    and run: "FFSOpen fuel (fresh_volume tbl) name flags perm = Inr (fd, st1)"
    and fd: "0 \<le> fd"
  shows "fd = 0 \<and> FlashSectionTable st1 = tbl \<and> length name \<le> FFS_MAX_FILENAME_LENGTH
         \<and> (\<exists>V. stored st1 fn [] 0 V \<and> unat V < fuel)
         \<and> InUse (FileDescriptors st1 0) \<noteq> 0
         \<and> FnodeSector (FileDescriptors st1 0) = NO_SECTOR
         \<and> DeleteOldFile (FileDescriptors st1 0) = 0
         \<and> Position (FileDescriptors st1 0) = 0
         \<and> FileSize (Fnode (FileDescriptors st1 0)) = 0
         \<and> Filename (Fnode (FileDescriptors st1 0)) = strcpy (replicate 65 0) name
         \<and> Padding (Fnode (FileDescriptors st1 0)) = replicate 2 0"
proof -
  define sd where "sd = set_descriptor (Initialize (fresh_volume tbl)) 0 (zero_descriptor\<lparr>InUse := 1\<rparr>)"
  have gd: "GetDescriptor (Initialize (fresh_volume tbl)) = (0, sd)"
    by (simp add: GetDescriptor_eq sd_def Initialize_def fresh_volume_def mount_def zero_descriptor_def)
  have tsd: "FlashSectionTable sd = tbl" and msd: "\<And>q. media sd q = erased"
    and dsd: "FileDescriptors sd 0 = zero_descriptor\<lparr>InUse := 1\<rparr>"
    by (simp_all add: sd_def set_descriptor_def Initialize_def fresh_volume_def mount_def)
  have fsd: "sectors_fit (FlashSectionTable sd)" using fit by (simp add: tsd)
  show ?thesis
  proof (cases "LocateFileNode fuel sd name")
    case (Inl e)
    with run gd show ?thesis by (simp add: FFSOpen_def)
  next
    case (Inr found)
    from LocateFileNode_found_loop [OF Inr] have
      ln: "length name \<le> FFS_MAX_FILENAME_LENGTH"
      and lp: "LocateFileNode_loop fuel sd (StringToUpperCase name) 0 None None = Inr found"
      by simp_all
    from fresh_stored [OF fsd msd lp, of fn] obtain V where
      f: "found = None" and V: "stored sd fn [] 0 V" "unat V < fuel"
      by blast
    have ne: "flags \<noteq> 0" using cr by auto
    from run gd Inr f cr ne ln have
      st1: "st1 = set_descriptor sd 0
              ((FileDescriptors sd 0)
                 \<lparr>FnodeSector := NO_SECTOR,
                  Fnode := (Fnode (FileDescriptors sd 0))
                     \<lparr>Filename := strcpy (Filename (Fnode (FileDescriptors sd 0))) name,
                      FileSize := 0, Permissions := word_of_int perm, Count := 0\<rparr>,
                  Flags := word_of_int flags\<rparr>)"
      and fd0: "fd = 0"
      by (auto simp: FFSOpen_def Let_def)
    have "FlashSectionTable st1 = FlashSectionTable sd" "media st1 = media sd"
      by (simp_all add: st1 set_descriptor_def)
    from stored_cong [OF this] V have "stored st1 fn [] 0 V" by simp
    with V(2) fd0 ln tsd show ?thesis
      by (auto simp: st1 set_descriptor_def dsd zero_descriptor_def zero_fnode_def)
  qed
qed

lemma sector_image_other_fn:
  "j \<noteq> 0 \<Longrightarrow> sector_image tbl fn' D m j = sector_image tbl fn D m j"
  by (rule ext) (simp add: sector_image_def)

lemma FFSClose_stored:
  assumes fit: "sectors_fit (FlashSectionTable st)"
    and inv: "stored st (replicate 80 0xFF) D (Suc c) V"
    and fd: "fd = 0 \<or> fd = 1"
    and d0: "InUse d0 \<noteq> 0" "DeleteOldFile d0 = 0"
      "length (Filename (Fnode d0)) = 65" "length (Padding (Fnode d0)) = 2"
    and desc: "FileDescriptors st (nat fd) = at_pos (d0\<lparr>WriteFnode := 1, FnodeSector := 0\<rparr>) (length D)"
    and run: "FFSClose fuel st fd = Inr (rc, st3)"
  shows "rc = 0 \<and> FlashSectionTable st3 = FlashSectionTable st
         \<and> stored st3 (fnode_bytes ((Fnode d0)\<lparr>FileSize := of_nat (length D)\<rparr>)) D (Suc c) V
         \<and> InUse (FileDescriptors st3 (nat fd)) = 0"
proof -
  define F where "F = (Fnode d0)\<lparr>FileSize := of_nat (length D)\<rparr>"
  from stored_used [OF inv, of 0] obtain p where
    p: "GetFlashSectionEntry st 0 = Some p"
    and mp: "media st p = sector_image (FlashSectionTable st) (replicate 80 0xFF) D (Suc c) 0"
    by auto
  note fs = fit_size [OF fit p]
  have lf: "length (fnode_bytes F) = 80"
    using d0 by (simp add: F_def)
  have w: "WriteSector st FnodeImage 0 SIZEOF_SECTOR_HEADER (fnode_bytes F) =
             (int (length (fnode_bytes F)),
              st\<lparr>media := (media st)(p := nor_write (media st p) (unat SIZEOF_SECTOR_HEADER) (fnode_bytes F)),
                 journal := journal st @ [OpWrite FnodeImage 0 SIZEOF_SECTOR_HEADER (fnode_bytes F)]\<rparr>)"
    using fs by (intro WriteSector_valid [OF p]) (simp_all only: lf, simp_all)
  define st1 where "st1 = snd (WriteSector st FnodeImage 0 SIZEOF_SECTOR_HEADER (fnode_bytes F))"
  have t1: "FlashSectionTable st1 = FlashSectionTable st" by (simp add: st1_def)
  have m1: "media st1 = (media st)(p := sector_image (FlashSectionTable st) (fnode_bytes F) D (Suc c) 0)"
    using sector_image_fnode [OF lf, of "FlashSectionTable st" D "Suc c"]
    by (simp add: st1_def w mp)
  have p0: "GetFlashSectionEntry st (of_nat 0) = Some p" using p by simp
  from inv have cV: "Suc c \<le> unat V" by (simp add: stored_def)
  have inv1: "stored st1 (fnode_bytes F) D (Suc c) V"
    using inv by (rule stored_update [OF _ t1 _ _ cV p0 m1]) (simp_all add: sector_image_other_fn)
  have iu: "InUse (FileDescriptors st (nat fd)) \<noteq> 0" using d0 by (simp add: desc)
  have sc: "SanityCheck st fd = Inr True"
    using fd iu by (auto simp: SanityCheck_def)
  have res: "rc = 0" "st3 = FreeDescriptor st1 (nat fd)"
    using run d0 by (simp_all add: FFSClose_def sc Let_def desc F_def [symmetric] st1_def [symmetric])
  have "FlashSectionTable st3 = FlashSectionTable st1" "media st3 = media st1"
    by (simp_all add: res FreeDescriptor_def set_descriptor_def)
  from stored_cong [OF this] inv1 have "stored st3 (fnode_bytes F) D (Suc c) V" by simp
  then show ?thesis
    by (simp add: res t1 F_def FreeDescriptor_def set_descriptor_def)
qed

lemma window_image_data:
  assumes "r \<le> payload_size tbl j" "payload_start tbl j + r \<le> length D"
  shows "window (sector_image tbl fn D m j) (dataoff j) r = take r (drop (payload_start tbl j) D)"
proof (rule window_eq_bytes)
  show "length (take r (drop (payload_start tbl j) D)) = r"
    using assms(2) by simp
  fix i assume i: "i < r"
  with assms(1) have a: "dataoff j + i < sector_size tbl j"
    by (simp add: payload_size_def)
  have b: "\<not> dataoff j + i < 24" "\<not> (j = 0 \<and> dataoff j + i < 104)"
    by (auto simp: dataoff_def)
  from i assms(2) have c: "payload_start tbl j + i < length D" by simp
  have "sector_image tbl fn D m j (dataoff j + i) = D ! (payload_start tbl j + i)"
    unfolding sector_image_def using a b c by (simp only: if_False if_True) simp
  with i c show "sector_image tbl fn D m j (dataoff j + i) = take r (drop (payload_start tbl j) D) ! i"
    by simp
qed

lemma window_image_fnode:
  "length fnb = 80 \<Longrightarrow> window (sector_image tbl fnb D m 0) 24 80 = fnb"
  by (rule window_eq_bytes) (simp_all add: sector_image_def)

lemma splice_gen:
  assumes "length A = a" "length chunk = r"
  shows "take (a + r) (A @ chunk @ rest) = A @ chunk"
    and "drop (a + r + x) (A @ chunk @ rest) = drop x rest"
  using assms by simp_all

lemma splice:
  assumes "bufpos + r \<le> length buf" "length chunk = r"
  shows "take (bufpos + r) (take bufpos buf @ chunk @ drop (bufpos + r) buf) = take bufpos buf @ chunk"
    and "drop (bufpos + r + x) (take bufpos buf @ chunk @ drop (bufpos + r) buf) = drop (bufpos + r + x) buf"
    and "length (take bufpos buf @ chunk @ drop (bufpos + r) buf) = length buf"
proof -
  have la: "length (take bufpos buf) = bufpos" using assms(1) by simp
  show "take (bufpos + r) (take bufpos buf @ chunk @ drop (bufpos + r) buf) = take bufpos buf @ chunk"
    by (rule splice_gen(1) [OF la assms(2)])
  have "drop (bufpos + r + x) (take bufpos buf @ chunk @ drop (bufpos + r) buf)
          = drop x (drop (bufpos + r) buf)"
    by (rule splice_gen(2) [OF la assms(2)])
  also have "\<dots> = drop (bufpos + r + x) buf"
    by (simp add: add.commute)
  finally show "drop (bufpos + r + x) (take bufpos buf @ chunk @ drop (bufpos + r) buf)
                  = drop (bufpos + r + x) buf" .
  show "length (take bufpos buf @ chunk @ drop (bufpos + r) buf) = length buf"
    using assms by simp
qed

lemma read_loop_stored:
  assumes fit: "sectors_fit (FlashSectionTable st)"
    and inv: "stored st fn D m V"
    and hi: "length D \<le> payload_start (FlashSectionTable st) m"
    and small: "length D < 2 ^ 31"
    and cong: "FlashSectionTable s = FlashSectionTable st" "media s = media st"
    and j: "j < m" "payload_start (FlashSectionTable st) j \<le> length D"
    and fuel: "m - j \<le> fuel"
    and room: "bufpos + (length D - payload_start (FlashSectionTable st) j) \<le> length buf"
  shows "read_result (read_loop fuel s fd buf bufpos
                        (of_nat (length D - payload_start (FlashSectionTable st) j)) (of_nat j)
                        (chain_header (FlashSectionTable st) m j) (of_nat (dataoff j)) Tot)
         = Inr (sint (Tot + of_nat (length D - payload_start (FlashSectionTable st) j)),
                take bufpos buf @ drop (payload_start (FlashSectionTable st) j) D
                  @ drop (bufpos + (length D - payload_start (FlashSectionTable st) j)) buf)"
  using cong j fuel room
proof (induction fuel arbitrary: s j buf bufpos Tot)
  case 0
  then show ?case by simp
next
  case (Suc fuel)
  note cong = Suc.prems(1,2) and jm = Suc.prems(3) and lo = Suc.prems(4) and fu = Suc.prems(5)
    and room = Suc.prems(6)
  define tbl where "tbl = FlashSectionTable st"
  define k where "k = length D - payload_start tbl j"
  define n :: ulong where "n = of_nat k"
  define h where "h = chain_header tbl m j"
  define Off :: ulong where "Off = of_nat (dataoff j)"
  have un: "unat n = k"
    unfolding n_def using small by (intro small_unat) (simp add: k_def)
  show ?case
    unfolding tbl_def [symmetric] k_def [symmetric] n_def [symmetric] h_def [symmetric]
      Off_def [symmetric]
  proof (cases "k = 0")
    case True
    then have "n = 0" by (simp add: n_def)
    moreover from True lo have "drop (payload_start tbl j) D = []" by (simp add: k_def tbl_def)
    ultimately show "read_result (read_loop (Suc fuel) s fd buf bufpos n (of_nat j) h Off Tot)
                       = Inr (sint (Tot + n), take bufpos buf @ drop (payload_start tbl j) D
                                                @ drop (bufpos + k) buf)"
      using True by simp
  next
    case False
    then have n0: "n \<noteq> 0" using un by auto
    from inv jm have jV: "j < unat V" by (simp add: stored_def)
    from stored_used [OF inv jm] obtain p where
      p: "GetFlashSectionEntry st (of_nat j) = Some p"
      and sz: "sector_size tbl j = unat (SectorSize (FlashSectionTable st ! fst p))"
      and mp: "media st p = sector_image tbl fn D m j"
      unfolding tbl_def by blast
    note g = stored_geometry [OF fit inv jV, folded tbl_def]
    have cap: "SectorLength h - Off = of_nat (payload_size tbl j)"
      by (simp only: h_def Off_def chain_header_fields g(2))
    have ups: "unat (of_nat (payload_size tbl j) :: ulong) = payload_size tbl j"
      by (rule le_unat_uoi [of _ "SectorSize (FlashSectionTable st ! fst p)"])
         (simp add: payload_size_def sz)
    define RemLen where "RemLen = (if n < SectorLength h - Off then n else SectorLength h - Off)"
    define r where "r = unat RemLen"
    have r: "r = min k (payload_size tbl j)"
      by (simp add: r_def RemLen_def cap word_less_nat_alt un ups min_def)
    have rle: "RemLen \<le> n"
      by (simp add: RemLen_def not_less)
    have uoff: "unat Off = dataoff j"
      unfolding Off_def using dataoff_ge(2) [of j] by (intro small_unat) simp
    have sr: "0 \<le> sint RemLen"
    proof -
      have "unat RemLen < 2147483648" using r small by (simp add: r_def [symmetric] k_def)
      from sint_small [OF this] show ?thesis by simp
    qed
    have fits: "unat Off + unat RemLen \<le> unat (SectorSize (FlashSectionTable st ! fst p))"
      using r g(1) dataoff_ge(2) [of j]
      by (simp add: uoff r_def [symmetric] sz [symmetric] payload_size_def)
    have rs: "ReadSector s (of_nat j) Off RemLen
                = (sint RemLen, Some (window (media st p) (dataoff j) r))"
      using ReadSector_window [OF p sr fits]
      by (simp add: ReadSector_cong [OF cong] uoff r_def)
    define chunk where "chunk = take r (drop (payload_start tbl j) D)"
    have lc: "length chunk = r"
      using r by (simp add: chunk_def k_def)
    have win: "window (media st p) (dataoff j) r = chunk"
      unfolding mp chunk_def using r lo
      by (intro window_image_data) (simp_all add: k_def tbl_def)
    have rk: "r \<le> k" using r by simp
    with room have br: "bufpos + r \<le> length buf" by (simp add: k_def tbl_def)
    define buf1 where "buf1 = take bufpos buf @ chunk @ drop (bufpos + r) buf"
    define got where "got = (case snd (ReadSector s (of_nat j) Off RemLen) of
                               None \<Rightarrow> Inr buf | Some bs \<Rightarrow> store buf bufpos bs)"
    have got: "got = Inr buf1"
      using br by (simp add: got_def rs win store_def lc buf1_def)
    define a1 where "a1 = advance_read s fd RemLen"
    define tail where "tail = (\<lambda>a b1.
        (case ReadSector a (Next h) 0 SIZEOF_SECTOR_HEADER of
           (rc, rr) \<Rightarrow>
             if rc < 0 then Inr (rc, a, b1)
             else
               (case rr of
                  None \<Rightarrow> Inl UninitialisedRead
                | Some hb \<Rightarrow>
                    read_loop fuel a fd b1 (bufpos + unat RemLen) (n - RemLen) (Next h)
                      (header_of hb) (DataOffset (header_of hb)) (Tot + RemLen))))"
    have L: "read_loop (Suc fuel) s fd buf bufpos n (of_nat j) h Off Tot =
               (case got of Inl e \<Rightarrow> Inl e
                | Inr b1 \<Rightarrow> if n - RemLen = 0 then Inr (sint (Tot + RemLen), a1, b1)
                              else tail a1 b1)"
      unfolding read_loop_Suc [OF n0] RemLen_def got_def a1_def tail_def ..
    have ta: "FlashSectionTable a1 = FlashSectionTable st" "media a1 = media st"
      using cong by (simp_all add: a1_def advance_read_def set_descriptor_def Let_def)
    show "read_result (read_loop (Suc fuel) s fd buf bufpos n (of_nat j) h Off Tot)
            = Inr (sint (Tot + n), take bufpos buf @ drop (payload_start tbl j) D
                                     @ drop (bufpos + k) buf)"
    proof (cases "n - RemLen = 0")
      case True
      then have e: "RemLen = n" by simp
      then have "r = k" by (simp add: r_def un)
      then have "chunk = drop (payload_start tbl j) D"
        by (simp add: chunk_def k_def)
      with True e \<open>r = k\<close> show ?thesis
        unfolding L got by (simp add: buf1_def)
    next
      case more: False
      then have ne: "RemLen \<noteq> n" by auto
      have rr: "r = payload_size tbl j" "r < k"
      proof -
        from ne have a: "\<not> n < SectorLength h - Off" by (auto simp: RemLen_def)
        with ne show "r = payload_size tbl j" by (simp add: r_def RemLen_def cap ups)
        from ne have "unat RemLen \<noteq> unat n" by (simp add: word_unat_eq_iff)
        with rk show "r < k" by (simp add: r_def un)
      qed
      have lt: "payload_start tbl (Suc j) < length D"
        using rr by (simp add: k_def)
      have sj: "Suc j < m"
      proof (rule ccontr)
        assume "\<not> Suc j < m"
        then have "m \<le> Suc j" by simp
        from payload_start_mono [OF this, of tbl] hi lt show False by (simp add: tbl_def)
      qed
      from stored_used [OF inv sj] obtain p' where
        p': "GetFlashSectionEntry st (of_nat (Suc j)) = Some p'"
        and mp': "media st p' = sector_image tbl fn D m (Suc j)"
        unfolding tbl_def by blast
      have nx: "Next h = of_nat (Suc j)"
        using sj by (simp only: h_def chain_header_fields) simp
      have rh: "ReadSector a1 (of_nat (Suc j)) 0 SIZEOF_SECTOR_HEADER
                  = (24, Some (window (media st p') 0 24))"
        using ReadSector_head [OF p' fit_size [OF fit p']] by (simp add: ReadSector_cong [OF ta])
      have hh: "header_of (window (media st p') 0 24) = chain_header tbl m (Suc j)"
        using header_at_image [OF mp'] by (simp add: header_at_def)
      have nr: "n - RemLen = of_nat (length D - payload_start tbl (Suc j))"
      proof -
        have "RemLen = of_nat r" by (simp add: r_def)
        then have "n - RemLen = of_nat (k - r)"
          using rk by (simp add: n_def of_nat_diff)
        moreover have "k - r = length D - payload_start tbl (Suc j)"
          using rr by (simp add: k_def)
        ultimately show ?thesis by simp
      qed
      have T: "tail a1 buf1 = read_loop fuel a1 fd buf1 (bufpos + r)
                 (of_nat (length D - payload_start tbl (Suc j))) (of_nat (Suc j))
                 (chain_header tbl m (Suc j)) (of_nat (dataoff (Suc j))) (Tot + RemLen)"
        unfolding tail_def nx rh
        by (simp add: hh chain_header_fields nr r_def)
      have lo': "payload_start (FlashSectionTable st) (Suc j) \<le> length D"
        using lt by (simp add: tbl_def)
      have fu': "m - Suc j \<le> fuel" using fu by simp
      have kk: "bufpos + r + (length D - payload_start tbl (Suc j)) = bufpos + k"
        using rr lt by (simp add: k_def)
      have lb: "length buf1 = length buf"
        unfolding buf1_def by (rule splice(3) [OF br lc])
      have "bufpos + k \<le> length buf"
        using room by (simp add: k_def tbl_def)
      then have room': "bufpos + r + (length D - payload_start (FlashSectionTable st) (Suc j)) \<le> length buf1"
        unfolding lb kk [unfolded tbl_def] .
      note ih = Suc.IH [OF ta sj lo' fu' room', where Tot = "Tot + RemLen", folded tbl_def]
      have tot: "Tot + RemLen + of_nat (length D - payload_start tbl (Suc j)) = Tot + n"
        unfolding nr [symmetric] by simp
      have cat: "chunk @ drop (payload_start tbl (Suc j)) D = drop (payload_start tbl j) D"
      proof -
        have "drop (payload_start tbl (Suc j)) D = drop r (drop (payload_start tbl j) D)"
          using rr by (simp add: add.commute)
        then show ?thesis
          unfolding chunk_def by (simp only: append_take_drop_id)
      qed
      have s1: "take (bufpos + r) buf1 = take bufpos buf @ chunk"
        unfolding buf1_def by (rule splice(1) [OF br lc])
      have "drop (bufpos + r + (length D - payload_start tbl (Suc j))) buf1
              = drop (bufpos + r + (length D - payload_start tbl (Suc j))) buf"
        unfolding buf1_def by (rule splice(2) [OF br lc])
      then have s2: "drop (bufpos + r + (length D - payload_start tbl (Suc j))) buf1
                       = drop (bufpos + k) buf"
        unfolding kk .
      have "read_result (tail a1 buf1)
              = Inr (sint (Tot + n), take bufpos buf @ drop (payload_start tbl j) D
                                       @ drop (bufpos + k) buf)"
        unfolding T ih tot s1 s2 using cat by simp
      with more show ?thesis
        unfolding L got by simp
    qed
  qed
qed

lemma payload_unat:
  assumes inv: "stored st fn D m V" and j: "j < unat V"
  shows "unat (of_nat (payload_size (FlashSectionTable st) j) :: ulong) = payload_size (FlashSectionTable st) j"
proof -
  from stored_valid [OF inv j] obtain p where
    "GetFlashSectionEntry st (of_nat j) = Some p"
    and "sector_size (FlashSectionTable st) j = unat (SectorSize (FlashSectionTable st ! fst p))"
    by blast
  then show ?thesis
    by (intro le_unat_uoi [of _ "SectorSize (FlashSectionTable st ! fst p)"]) (simp add: payload_size_def)
qed

lemma LocatePosition_chain_step:
  assumes fit: "sectors_fit (FlashSectionTable st)"
    and inv: "stored st fn D m V"
    and j: "j < m"
  shows "LocatePosition_loop (Suc fuel) st Pos (of_nat j) Cnt =
     (if Pos < Cnt + of_nat (payload_size (FlashSectionTable st) j)
      then Inr (0, Some (of_nat j, chain_header (FlashSectionTable st) m j, of_nat (dataoff j) + (Pos - Cnt)))
      else LocatePosition_loop fuel st Pos (if Suc j < m then of_nat (Suc j) else NO_SECTOR)
             (Cnt + of_nat (payload_size (FlashSectionTable st) j)))"
proof -
  from inv j have jV: "j < unat V" by (simp add: stored_def)
  from stored_used [OF inv j] obtain p where
    p: "GetFlashSectionEntry st (of_nat j) = Some p"
    and mp: "media st p = sector_image (FlashSectionTable st) fn D m j"
    by blast
  note h = header_at_image [OF mp]
  note g = stored_geometry [OF fit inv jV]
  have cap: "SectorLength (header_at st p) - DataOffset (header_at st p)
               = of_nat (payload_size (FlashSectionTable st) j)"
    by (simp only: h chain_header_fields g(2))
  show ?thesis
    unfolding LocatePosition_loop_step [OF fit] p option.case cap
    by (simp only: h chain_header_fields)
qed

lemma LocatePosition_first:
  assumes fit: "sectors_fit (FlashSectionTable st)"
    and inv: "stored st fn D m V"
    and hi: "length D \<le> payload_start (FlashSectionTable st) m"
    and ne: "D \<noteq> []"
    and fuel: "unat V < fuel"
  shows "\<exists>j. j < m \<and> payload_start (FlashSectionTable st) j = 0
           \<and> LocatePosition_loop fuel st 0 0 0
               = Inr (0, Some (of_nat j, chain_header (FlashSectionTable st) m j, of_nat (dataoff j)))"
proof -
  define tbl where "tbl = FlashSectionTable st"
  from inv have mV: "m \<le> unat V" by (simp add: stored_def)
  have m0: "0 < m"
  proof (rule ccontr)
    assume "\<not> 0 < m"
    with hi ne show False by simp
  qed
  with mV have V0: "0 < unat V" by simp
  note u0 = payload_unat [OF inv V0]
  from fuel obtain f where f: "fuel = Suc f" by (cases fuel) auto
  note s0 = LocatePosition_chain_step [OF fit inv m0, of f 0 0, folded f]
  show ?thesis
  proof (cases "payload_size (FlashSectionTable st) 0 = 0")
    case False
    with u0 have "(of_nat (payload_size (FlashSectionTable st) 0) :: ulong) \<noteq> 0"
      by (metis unat_0)
    then have "(0 :: ulong) < 0 + of_nat (payload_size (FlashSectionTable st) 0)"
      by (simp add: word_neq_0_conv)
    with s0 m0 show ?thesis
      by (intro exI [of _ 0]) simp
  next
    case True
    have m1: "1 < m"
    proof (rule ccontr)
      assume "\<not> 1 < m"
      with m0 have "m = 1" by simp
      with hi ne True show False by simp
    qed
    with mV have V1: "1 < unat V" by simp
    note u1 = payload_unat [OF inv V1]
    from stored_geometry(1) [OF fit inv V1] have "payload_size (FlashSectionTable st) 1 \<noteq> 0"
      by (simp add: payload_size_def dataoff_def)
    with u1 have "(of_nat (payload_size (FlashSectionTable st) 1) :: ulong) \<noteq> 0"
      by (metis unat_0)
    then have t1: "(0 :: ulong) < 0 + of_nat (payload_size (FlashSectionTable st) 1)"
      by (simp add: word_neq_0_conv)
    from fuel mV m1 f obtain f' where f': "f = Suc f'" by (cases f) auto
    note s1 = LocatePosition_chain_step [OF fit inv m1, of f' 0 0, folded f']
    have "LocatePosition_loop fuel st 0 0 0
            = Inr (0, Some (of_nat 1, chain_header (FlashSectionTable st) m 1, of_nat (dataoff 1)))"
      using s0 s1 t1 m1 True by simp
    moreover have "payload_start (FlashSectionTable st) 1 = 0"
      using True by simp
    ultimately show ?thesis
      using m1 by (intro exI [of _ 1]) simp
  qed
qed

lemma length_strcpy:
  "length src < length dst \<Longrightarrow> length (strcpy dst src) = length dst"
  by (simp add: strcpy_def)

lemma read_back:
  assumes fit: "sectors_fit (FlashSectionTable st)"
    and inv: "stored st (fnode_bytes F) D m V"
    and hi: "length D \<le> payload_start (FlashSectionTable st) m"
    and ne: "D \<noteq> []"
    and small: "length D < 2 ^ 31"
    and F: "FileSize F = of_nat (length D)" "Filename F = strcpy (replicate 65 0) name"
      "length (Padding F) = 2"
    and name: "length name \<le> FFS_MAX_FILENAME_LENGTH" "0 \<notin> set name"
    and free: "InUse (FileDescriptors st 0) = 0"
    and fuel: "unat V < fuel"
    and buf: "length D \<le> length buf"
    and n: "int (length D) \<le> n" "n < 2 ^ 31"
  shows "open_read fuel st name buf n = Inr (int (length D), D @ drop (length D) buf)"
proof -
  define tbl where "tbl = FlashSectionTable st"
  from inv have mV: "m \<le> unat V" by (simp add: stored_def)
  have m0: "0 < m"
  proof (rule ccontr)
    assume "\<not> 0 < m"
    with hi ne show False by simp
  qed
  from fuel obtain f where f: "fuel = Suc f" by (cases fuel) auto
  from stored_used [OF inv m0] obtain p where
    p: "GetFlashSectionEntry st 0 = Some p"
    and mp: "media st p = sector_image (FlashSectionTable st) (fnode_bytes F) D m 0"
    by auto
  have lF: "length (Filename F) = 65"
    using name(1) by (simp add: F(2) length_strcpy)
  have lfb: "length (fnode_bytes F) = 80"
    using lF F(3) by simp
  have fa: "fnode_at st p = F"
    unfolding fnode_at_def mp window_image_fnode [OF lfb]
    by (rule fnode_of_fnode_bytes [OF lF F(3)])
  have ha: "Status (header_at st p) = FFS_SECTOR_HEADER_INUSE_FILENODE"
    by (simp add: header_at_image [OF mp] chain_header_fields)
  have cs: "cstr (Filename F) = name"
    unfolding F(2) by (rule cstr_strcpy [OF name(2)])
  have L: "LocateFileNode fuel st name = Inr (Some (F, 0))"
    using name(1)
    by (simp add: LocateFileNode_def f LocateFileNode_loop_step [OF fit] p ha fa cs
             del: LocateFileNode_loop.simps)
  define sd where "sd = set_descriptor (Initialize st) 0 (zero_descriptor\<lparr>InUse := 1\<rparr>)"
  have gd: "GetDescriptor (Initialize st) = (0, sd)"
    using free by (simp add: GetDescriptor_eq sd_def Initialize_def)
  define so where "so = set_descriptor sd (nat 0)
                          ((FileDescriptors sd (nat 0))\<lparr>Fnode := F, FnodeSector := 0, Flags := 0\<rparr>)"
  have R: "open_read fuel st name buf n = read_result (FFSRead fuel so 0 buf n)"
    using open_read_found [OF L _ gd, of buf n] by (simp add: so_def)
  have tso: "FlashSectionTable so = FlashSectionTable st" "media so = media st"
    by (simp_all add: so_def sd_def set_descriptor_def Initialize_def)
  have dso: "InUse (FileDescriptors so (nat 0)) \<noteq> 0" "Position (FileDescriptors so (nat 0)) = 0"
    "FnodeSector (FileDescriptors so (nat 0)) = 0"
    "FileSize (Fnode (FileDescriptors so (nat 0))) = of_nat (length D)"
    by (simp_all add: so_def sd_def set_descriptor_def zero_descriptor_def F(1))
  have uD: "unat (of_nat (length D) :: ulong) = length D"
    using small by (rule small_unat)
  have nz: "(of_nat (length D) :: ulong) \<noteq> 0"
    using uD ne by (metis length_0_conv unat_0)
  have nn: "0 \<le> n" using n(1) by simp
  have wn: "(word_of_int n :: ulong) = of_nat (nat n)"
    using nn by (metis of_int_of_nat_eq int_nat_eq)
  have un: "unat (word_of_int n :: ulong) = nat n"
    unfolding wn using n(2) nn by (intro small_unat) (simp add: nat_less_iff)
  have clamp: "(if word_of_int n > (of_nat (length D) :: ulong) then of_nat (length D) else word_of_int n)
                 = (of_nat (length D) :: ulong)"
  proof (cases "word_of_int n > (of_nat (length D) :: ulong)")
    case True
    then show ?thesis by simp
  next
    case False
    then have "nat n \<le> length D" by (simp add: word_less_nat_alt un uD)
    with n(1) have "nat n = length D" by simp
    with False show ?thesis by (simp add: wn)
  qed
  from LocatePosition_first [OF fit inv hi ne fuel] obtain j where
    j: "j < m" "payload_start (FlashSectionTable st) j = 0"
    and lp: "LocatePosition_loop fuel st 0 0 0
               = Inr (0, Some (of_nat j, chain_header (FlashSectionTable st) m j, of_nat (dataoff j)))"
    by blast
  have lp': "LocatePosition_loop fuel so 0 0 0
               = Inr (0, Some (of_nat j, chain_header (FlashSectionTable st) m j, of_nat (dataoff j)))"
    using lp by (simp add: LocatePosition_loop_cong [OF tso])
  have fu: "m - j \<le> fuel" using mV fuel by simp
  have lo: "payload_start (FlashSectionTable st) j \<le> length D" by (simp add: j(2))
  have room: "0 + (length D - payload_start (FlashSectionTable st) j) \<le> length buf"
    using buf by (simp add: j(2))
  note rl = read_loop_stored [OF fit inv hi small tso j(1) lo fu room, of "nat 0" 0, unfolded j(2)]
  have si: "sint (of_nat (length D) :: ulong) = int (length D)"
  proof -
    have "unat (of_nat (length D) :: ulong) < 2147483648" using small by (simp add: uD)
    from sint_small [OF this] show ?thesis by (simp add: uD)
  qed
  have fd0: "(0 :: int) = 0 \<or> (0 :: int) = 1" by simp
  have "read_result (FFSRead fuel so 0 buf n) = Inr (int (length D), D @ drop (length D) buf)"
    unfolding FFSRead_at_zero [OF fd0 dso, of fuel buf n] clamp lp'
    using nz rl by (simp add: si)
  with R show ?thesis by simp
qed

lemma store_file_steps:
  assumes "store_file fuel st0 name flags perm bufs = Inr (Some st)"
  shows "\<exists>fd st1 st2. FFSOpen fuel st0 name flags perm = Inr (fd, st1) \<and> 0 \<le> fd
           \<and> write_all fuel st1 fd bufs = Inr (Some st2)
           \<and> FFSClose fuel st2 fd = Inr (0, st)"
  using assms unfolding store_file_def
  by (auto split: sum.splits prod.splits if_splits option.splits)

section \<open>Write and read round trip (C1)\<close>

text \<open>
  C1, amended. On a fresh volume whose sectors hold at least a sector header and a file
  node, let \<^verbatim>\<open>open(name, flags, perm)\<close> with the bit \<^verbatim>\<open>FFS_CREATE\<close> in
  \<open>flags\<close>, the writes of the buffers \<open>bufs\<close> and \<^verbatim>\<open>close\<close> succeed: \<^verbatim>\<open>open\<close>
  returns a descriptor, every \<^verbatim>\<open>write\<close> the length of its buffer, \<^verbatim>\<open>close\<close>
  zero. Let the writes store at least one byte and fewer than \<open>2^31\<close> bytes in all, and
  let \<open>name\<close> be a C string. Then \<^verbatim>\<open>open(name, FFS_RDONLY, 0)\<close> followed by
  \<^verbatim>\<open>read(fd, buf, n)\<close>, with \<open>n\<close> at least the number of bytes written and
  \<open>buf\<close> that long, returns the number of bytes written and leaves in \<open>buf\<close> exactly
  the bytes written, in order, followed by what \<open>buf\<close> held behind them.
\<close>

theorem C1_round_trip:
  assumes fit: "sectors_fit tbl"
    and name: "0 \<notin> set name"
    and create: "flags AND FFS_CREATE \<noteq> 0"
    and written: "store_file fuel (fresh_volume tbl) name flags perm bufs = Inr (Some st)"
    and some: "concat bufs \<noteq> []"
    and small: "length (concat bufs) < 2 ^ 31"
    and buf: "length (concat bufs) \<le> length buf"
    and n: "int (length (concat bufs)) \<le> n" "n < 2 ^ 31"
  shows "open_read fuel st name buf n
           = Inr (int (length (concat bufs)), concat bufs @ drop (length (concat bufs)) buf)"
proof -
  define fn :: "byte list" where "fn = replicate 80 0xFF"
  have fn: "length fn = 80" "set fn \<subseteq> {0xFF}" by (simp_all add: fn_def)
  from store_file_steps [OF written] obtain fd st1 st2 where
    op: "FFSOpen fuel (fresh_volume tbl) name flags perm = Inr (fd, st1)" and fd: "0 \<le> fd"
    and wr: "write_all fuel st1 fd bufs = Inr (Some st2)"
    and cl: "FFSClose fuel st2 fd = Inr (0, st)"
    by blast
  from FFSOpen_fresh [OF fit create op fd, of fn] obtain V where
    fd0: "fd = 0" and t1: "FlashSectionTable st1 = tbl"
    and ln: "length name \<le> FFS_MAX_FILENAME_LENGTH"
    and inv1: "stored st1 fn [] 0 V" and fuel: "unat V < fuel"
    and d: "InUse (FileDescriptors st1 0) \<noteq> 0"
      "FnodeSector (FileDescriptors st1 0) = NO_SECTOR"
      "DeleteOldFile (FileDescriptors st1 0) = 0"
      "Position (FileDescriptors st1 0) = 0"
      "FileSize (Fnode (FileDescriptors st1 0)) = 0"
      "Filename (Fnode (FileDescriptors st1 0)) = strcpy (replicate 65 0) name"
      "Padding (Fnode (FileDescriptors st1 0)) = replicate 2 0"
    by blast
  define d0 where "d0 = FileDescriptors st1 0"
  have fit1: "sectors_fit (FlashSectionTable st1)" using fit by (simp add: t1)
  have fdc: "fd = 0 \<or> fd = 1" using fd0 by simp
  have desc1: "FileDescriptors st1 (nat fd)
                 = at_pos (if (0 :: nat) = 0 then d0 else d0\<lparr>WriteFnode := 1, FnodeSector := 0\<rparr>)
                     (length ([] :: byte list))"
    using at_pos_same [of d0 0] d(4,5) by (simp add: d0_def fd0)
  have b1: "length ([] :: byte list) + length (concat bufs) < 2 ^ 31" using small by simp
  from write_all_stored [OF fit1 fn fdc _ _ inv1 desc1 _ _ b1 wr] d(1,2)
  obtain m where
    inv2: "stored st2 fn (concat bufs) m V"
    and t2: "FlashSectionTable st2 = FlashSectionTable st1"
    and desc2: "FileDescriptors st2 (nat fd)
                  = at_pos (if m = 0 then d0 else d0\<lparr>WriteFnode := 1, FnodeSector := 0\<rparr>)
                      (length (concat bufs))"
    and m0: "m = 0 \<longrightarrow> concat bufs = []"
    and geo: "m \<noteq> 0 \<longrightarrow> payload_start (FlashSectionTable st1) (m - 1) \<le> length (concat bufs)
                           \<and> length (concat bufs) \<le> payload_start (FlashSectionTable st1) m"
    by (auto simp: d0_def)
  from m0 some obtain c where m: "m = Suc c" by (cases m) auto
  have fit2: "sectors_fit (FlashSectionTable st2)" using fit1 by (simp add: t2)
  have lF: "length (Filename (Fnode d0)) = 65" "length (Padding (Fnode d0)) = 2"
    using ln by (simp_all add: d0_def d(6,7) length_strcpy)
  have desc2': "FileDescriptors st2 (nat fd)
                  = at_pos (d0\<lparr>WriteFnode := 1, FnodeSector := 0\<rparr>) (length (concat bufs))"
    using desc2 m by simp
  define F where "F = (Fnode d0)\<lparr>FileSize := of_nat (length (concat bufs))\<rparr>"
  from FFSClose_stored [OF fit2 inv2 [unfolded m fn_def] fdc _ _ lF desc2' cl] d(1,3)
  have t3: "FlashSectionTable st = FlashSectionTable st2"
    and inv3: "stored st (fnode_bytes F) (concat bufs) (Suc c) V"
    and free: "InUse (FileDescriptors st 0) = 0"
    by (simp_all add: d0_def F_def fd0)
  have fit3: "sectors_fit (FlashSectionTable st)" using fit2 by (simp add: t3)
  have hi: "length (concat bufs) \<le> payload_start (FlashSectionTable st) (Suc c)"
    using geo m by (simp add: t3 t2)
  have FF: "FileSize F = of_nat (length (concat bufs))" "Filename F = strcpy (replicate 65 0) name"
    "length (Padding F) = 2"
    by (simp_all add: F_def d0_def d(6,7))
  show ?thesis
    by (rule read_back [OF fit3 inv3 hi some small FF ln name free fuel buf n])
qed

theorem C1_round_trip_witness:
  "sectors_fit small_table \<and> 0 \<notin> set name_a \<and> FFS_CREATE AND FFS_CREATE \<noteq> 0
   \<and> concat [hello, replicate 30 0x41] \<noteq> []
   \<and> length (concat [hello, replicate 30 0x41]) < 2 ^ 31
   \<and> length (concat [hello, replicate 30 0x41]) \<le> length (replicate 40 (0 :: byte))
   \<and> int (length (concat [hello, replicate 30 0x41])) \<le> 40 \<and> (40 :: int) < 2 ^ 31
   \<and> (\<exists>st. store_file 10 (fresh_volume small_table) name_a FFS_CREATE 0 [hello, replicate 30 0x41]
               = Inr (Some st)
         \<and> open_read 10 st name_a (replicate 40 0) 40
             = Inr (35, concat [hello, replicate 30 0x41] @ drop 35 (replicate 40 0)))"
proof -
  have fit: "sectors_fit small_table"
    by (rule fit_small_table)
  have nm: "0 \<notin> set name_a" by (simp add: name_a_def)
  have cr: "FFS_CREATE AND FFS_CREATE \<noteq> 0" by simp
  have ne: "concat [hello, replicate 30 0x41] \<noteq> []" by (simp add: hello_def)
  have len: "length (concat [hello, replicate 30 (0x41 :: byte)]) = 35" by (simp add: hello_def)
  have "\<exists>st. store_file 10 (fresh_volume small_table) name_a FFS_CREATE 0 [hello, replicate 30 0x41]
               = Inr (Some st)"
    by (simp add: ffs_eval store_file_def)
  then obtain st where
    w: "store_file 10 (fresh_volume small_table) name_a FFS_CREATE 0 [hello, replicate 30 0x41]
          = Inr (Some st)"
    by blast
  from C1_round_trip [OF fit nm cr w ne, of "replicate 40 0" 40] fit nm cr ne w len
  show ?thesis
    by auto
qed

text \<open>
  C1 as stated fails for a file without bytes: after \<^verbatim>\<open>open("a", FFS_CREATE, 0)\<close>, a
  \<^verbatim>\<open>write\<close> of no bytes, which returns 0, and \<^verbatim>\<open>close\<close> on the fresh volume of
  four sectors, \<^verbatim>\<open>open("a", FFS_RDONLY, 0)\<close> followed by \<^verbatim>\<open>read\<close> returns
  \<^verbatim>\<open>FFS_RC_INVALID_FILE_POSITION\<close> (-4), not the number of bytes written, 0.
\<close>

theorem C1_empty_file_is_not_read:
  "\<exists>st. store_file 10 (fresh_volume small_table) name_a FFS_CREATE 0 [[]] = Inr (Some st)
     \<and> open_read 10 st name_a (replicate 8 0) 8 = Inr (FFS_RC_INVALID_FILE_POSITION, replicate 8 0)
     \<and> FFS_RC_INVALID_FILE_POSITION \<noteq> int (length (concat [[] :: byte list]))"
  by (simp add: ffs_eval store_file_def open_read_def read_result_def)

end
